theory Spec2Isabelle
  imports Complex_Main "HOL-Library.Product_Lexorder"
begin

section \<open>Arrays of floating-point samples\<close>

text \<open>
  The two windowed operations of \<^verbatim>\<open>scripts/utils.py\<close>, \<^verbatim>\<open>glcm_texture\<close> and
  \<^verbatim>\<open>majority_filter\<close>, work on two-dimensional numpy arrays of floats. An array is a
  list of rows; a sample is a finite number, one of the two infinities, or NaN (the
  missing-value marker of the rasters). A finite sample is the real number it stands for;
  how the quotient of two finite samples is rounded to the 64-bit format is a parameter of
  the division, and what a sample without a 64-bit integer value is cast to is a parameter
  of the cast.
\<close>

datatype fl = Fin real | PInf | NInf | NaN

type_synonym image = "fl list list"

datatype error =
    AssertionError
  | ValueError_argmax_empty
  | ValueError_max_empty
  | ValueError_property
  | ValueError_range_step
  | ValueError_reshape
  | UnboundLocalError
  | IndexError
  | LibraryError string

definition isnan :: "fl \<Rightarrow> bool" where
  "isnan v = (v = NaN)"

definition shape0 :: "'a list list \<Rightarrow> nat" where
  "shape0 x = length x"

definition shape1 :: "'a list list \<Rightarrow> nat" where
  "shape1 x = (case x of [] \<Rightarrow> 0 | r # _ \<Rightarrow> length r)"

text \<open>
  A Python slice \<^verbatim>\<open>xs[start:stop]\<close>: a negative bound counts from the end, and both
  bounds are clipped to the list.
\<close>

definition py_slice :: "'a list \<Rightarrow> int \<Rightarrow> int \<Rightarrow> 'a list" where
  "py_slice xs start stop =
     (let n = int (length xs);
          s = (if start < 0 then max 0 (start + n) else min start n);
          e = (if stop < 0 then max 0 (stop + n) else min stop n)
      in take (nat (e - s)) (drop (nat s) xs))"

definition slice2 :: "'a list list \<Rightarrow> int \<Rightarrow> int \<Rightarrow> int \<Rightarrow> int \<Rightarrow> 'a list list" where
  "slice2 x r0 r1 c0 c1 = map (\<lambda>row. py_slice row c0 c1) (py_slice x r0 r1)"

definition set_item :: "'a list list \<Rightarrow> nat \<Rightarrow> nat \<Rightarrow> 'a \<Rightarrow> 'a list list" where
  "set_item a i j v = a[i := (a ! i)[j := v]]"

section \<open>The majority filter\<close>

text \<open>
  \<^verbatim>\<open>np.unique(a, return_counts=True)\<close> returns the distinct values in increasing order,
  NaN last, with the number of occurrences of each; all NaNs form one group (numpy 1.21
  and later). \<open>sort_rank\<close> is that order.
\<close>

definition sort_rank :: "fl \<Rightarrow> nat \<times> real" where
  "sort_rank v = (case v of NInf \<Rightarrow> (0, 0) | Fin r \<Rightarrow> (1, r) | PInf \<Rightarrow> (2, 0) | NaN \<Rightarrow> (3, 0))"

definition np_unique :: "fl list \<Rightarrow> fl list \<times> nat list" where
  "np_unique a =
     (let unique_elements = sort_key sort_rank (remdups a)
      in (unique_elements, map (count_list a) unique_elements))"

text \<open>\<^verbatim>\<open>np.argmax\<close>: the first index of the largest entry; an empty array raises.\<close>

definition np_argmax :: "nat list \<Rightarrow> error + nat" where
  "np_argmax cs =
     (if cs = [] then Inl ValueError_argmax_empty
      else Inr (length (takeWhile (\<lambda>c. c \<noteq> foldr max cs 0) cs)))"

definition block_fn :: "image \<Rightarrow> fl \<Rightarrow> error + fl" where
  "block_fn x center_val =
     (let (unique_elements, counts_elements) = np_unique (concat x)
      in if isnan center_val then Inr NaN
         else if center_val = Fin 1 then Inr (Fin 1)
         else (case np_argmax counts_elements of
                 Inl e \<Rightarrow> Inl e
               | Inr k \<Rightarrow> Inr (unique_elements ! k)))"

text \<open>
  The inner loop over the columns \<open>j\<close> of row \<open>i\<close>, and the outer loop over the rows.
  \<open>output\<close> is the array being filled; an exception raised by \<open>block_fn\<close> ends the call.
\<close>

fun majority_cols ::
  "image \<Rightarrow> int \<Rightarrow> int \<Rightarrow> int \<Rightarrow> nat \<Rightarrow> nat list \<Rightarrow> image \<Rightarrow> error + image" where
  "majority_cols x xx miny maxy i [] output = Inr output"
| "majority_cols x xx miny maxy i (j # js) output =
     (let minx = max 0 (int j - xx);
          maxx = min (int (shape1 x) - 1) (int j + xx);
          block = slice2 x miny (maxy + 1) minx (maxx + 1)
      in case block_fn block (x ! i ! j) of
           Inl e \<Rightarrow> Inl e
         | Inr v \<Rightarrow> majority_cols x xx miny maxy i js (set_item output i j v))"

fun majority_rows :: "image \<Rightarrow> int \<Rightarrow> int \<Rightarrow> nat list \<Rightarrow> image \<Rightarrow> error + image" where
  "majority_rows x yy xx [] output = Inr output"
| "majority_rows x yy xx (i # is) output =
     (let miny = max 0 (int i - yy);
          maxy = min (int (shape0 x) - 1) (int i + yy)
      in case majority_cols x xx miny maxy i [0..<shape1 x] output of
           Inl e \<Rightarrow> Inl e
         | Inr output' \<Rightarrow> majority_rows x yy xx is output')"

text \<open>
  \<^verbatim>\<open>int((b - 1) / 2)\<close> is evaluated only for an odd \<open>b\<close>, where the division is exact,
  so it is \<open>(b - 1) div 2\<close>.
\<close>

definition majority_filter :: "image \<Rightarrow> int \<times> int \<Rightarrow> error + image" where
  "majority_filter x block_size =
     (if \<not> (fst block_size mod 2 \<noteq> 0 \<and> snd block_size mod 2 \<noteq> 0) then Inl AssertionError
      else
        let yy = (fst block_size - 1) div 2;
            xx = (snd block_size - 1) div 2;
            output = map (map (\<lambda>_. Fin 0)) x
        in majority_rows x yy xx [0..<shape0 x] output)"

text \<open>
  The block handed to \<open>block_fn\<close> for the pixel \<open>(i, j)\<close>, as the two loops compute it, and
  the arrays that numpy can hold: all rows have one length.
\<close>

definition block_at :: "image \<Rightarrow> int \<Rightarrow> int \<Rightarrow> nat \<Rightarrow> nat \<Rightarrow> image" where
  "block_at x yy xx i j =
     slice2 x (max 0 (int i - yy)) (min (int (shape0 x) - 1) (int i + yy) + 1)
              (max 0 (int j - xx)) (min (int (shape1 x) - 1) (int j + xx) + 1)"

definition rect :: "'a list list \<Rightarrow> bool" where
  "rect x = (\<forall>r \<in> set x. length r = shape1 x)"

text \<open>A small categorical raster with missing values, for concrete runs.\<close>

definition sample_classes :: image where
  "sample_classes = [[Fin 2, NaN, Fin 1], [Fin 3, Fin 3, NaN], [NaN, NaN, Fin 5]]"

section \<open>The texture engine\<close>

text \<open>
  \<^verbatim>\<open>glcm_texture\<close> divides its argument in place by a float, which numpy allows on an
  array of floats only: the argument is such an array.
\<close>

subsection \<open>Arithmetic on samples\<close>

text \<open>
  Division of two samples. \<open>rnd\<close> gives the sample that the format holds for the exact
  quotient of two nonzero finite numbers: the nearest one, an infinity on overflow, zero
  on underflow. The other cases are fixed by the format: zero over a nonzero number is
  zero, a nonzero number over zero is an infinity, zero over zero and infinity over
  infinity are NaN, a finite number over an infinity is zero. Zero carries no sign here,
  so a division by zero takes the sign of the numerator. numpy reports these cases with a
  warning, never with an exception.
\<close>

definition fdiv :: "(real \<Rightarrow> fl) \<Rightarrow> fl \<Rightarrow> fl \<Rightarrow> fl" where
  "fdiv rnd a b =
     (case (a, b) of
        (NaN, _) \<Rightarrow> NaN
      | (_, NaN) \<Rightarrow> NaN
      | (Fin p, Fin q) \<Rightarrow>
          (if q = 0 then (if p = 0 then NaN else if 0 < p then PInf else NInf)
           else if p = 0 then Fin 0
           else rnd (p / q))
      | (Fin p, _) \<Rightarrow> Fin 0
      | (PInf, Fin q) \<Rightarrow> (if 0 \<le> q then PInf else NInf)
      | (NInf, Fin q) \<Rightarrow> (if 0 \<le> q then NInf else PInf)
      | (_, _) \<Rightarrow> NaN)"

text \<open>The division that keeps every quotient as it is.\<close>

definition exact :: "real \<Rightarrow> fl" where
  "exact r = Fin r"

definition is_finite :: "fl \<Rightarrow> bool" where
  "is_finite v = (case v of Fin r \<Rightarrow> True | _ \<Rightarrow> False)"

text \<open>\<^verbatim>\<open>a.max()\<close>: NaN if the array holds a NaN, else its largest entry; an empty array raises.\<close>

definition fmax :: "fl \<Rightarrow> fl \<Rightarrow> fl" where
  "fmax a b = (if isnan a \<or> isnan b then NaN else if sort_rank a < sort_rank b then b else a)"

definition np_max :: "fl list \<Rightarrow> error + fl" where
  "np_max a = (case a of [] \<Rightarrow> Inl ValueError_max_empty | v # vs \<Rightarrow> Inr (foldl fmax v vs))"

text \<open>\<^verbatim>\<open>np.round_(a, 0)\<close> rounds to the nearest integer, a half to the even neighbour.\<close>

definition round_half_even :: "real \<Rightarrow> int" where
  "round_half_even r =
     (let f = \<lfloor>r\<rfloor>
      in if r - of_int f < 1 / 2 then f
         else if 1 / 2 < r - of_int f then f + 1
         else if even f then f else f + 1)"

definition np_round :: "fl \<Rightarrow> fl" where
  "np_round v = (case v of Fin r \<Rightarrow> Fin (of_int (round_half_even r)) | _ \<Rightarrow> v)"

text \<open>
  \<^verbatim>\<open>a.astype(int)\<close> drops the fraction of a finite sample that fits a 64-bit integer.
  What a larger sample, NaN and the infinities become is left to the platform by numpy
  (the smallest 64-bit integer on x86-64; on aarch64 0 for NaN and the nearest 64-bit
  integer otherwise); \<open>nonfinite\<close> is that choice.
\<close>

definition astype_int :: "(fl \<Rightarrow> int) \<Rightarrow> fl \<Rightarrow> int" where
  "astype_int nonfinite v =
     (case v of
        Fin r \<Rightarrow>
          (let t = (if 0 \<le> r then \<lfloor>r\<rfloor> else \<lceil>r\<rceil>)
           in if - (2 ^ 63) \<le> t \<and> t < 2 ^ 63 then t else nonfinite v)
      | _ \<Rightarrow> nonfinite v)"

definition np_mean :: "real list \<Rightarrow> real" where
  "np_mean a = sum_list a / real (length a)"

text \<open>\<^verbatim>\<open>range(0, n, step)\<close>: a zero step raises, a negative step gives no index.\<close>

definition py_range :: "nat \<Rightarrow> int \<Rightarrow> error + nat list" where
  "py_range n step =
     (if step = 0 then Inl ValueError_range_step
      else if step < 0 then Inr []
      else Inr (map (\<lambda>k. k * nat step) [0..<(n + nat step - 1) div nat step]))"

text \<open>\<^verbatim>\<open>np.array(out).reshape(a, b)\<close> of a flat list.\<close>

definition np_reshape :: "'a list \<Rightarrow> nat \<Rightarrow> nat \<Rightarrow> error + 'a list list" where
  "np_reshape a rows cols =
     (if length a = rows * cols
      then Inr (map (\<lambda>r. take cols (drop (r * cols) a)) [0..<rows])
      else Inl ValueError_reshape)"

text \<open>
  An operation applied in place to the part \<^verbatim>\<open>xs[start:stop]\<close> of a list, and to the
  part \<^verbatim>\<open>a[r0:r1, c0:c1]\<close> of an array: what a numpy view writes through to its base.
\<close>

definition slice_update :: "('a \<Rightarrow> 'a) \<Rightarrow> 'a list \<Rightarrow> int \<Rightarrow> int \<Rightarrow> 'a list" where
  "slice_update f xs start stop =
     (let n = int (length xs);
          s = (if start < 0 then max 0 (start + n) else min start n);
          e = (if stop < 0 then max 0 (stop + n) else min stop n)
      in take (nat s) xs @ map f (take (nat (e - s)) (drop (nat s) xs))
           @ drop (nat s + nat (e - s)) xs)"

definition slice2_update ::
  "('a \<Rightarrow> 'a) \<Rightarrow> 'a list list \<Rightarrow> int \<Rightarrow> int \<Rightarrow> int \<Rightarrow> int \<Rightarrow> 'a list list" where
  "slice2_update f x r0 r1 c0 c1 = slice_update (\<lambda>row. slice_update f row c0 c1) x r0 r1"

subsection \<open>The library routines\<close>

text \<open>
  \<^verbatim>\<open>glcm_texture\<close> calls three routines of scikit-image. They are parameters of the
  model, together with the rounding of a quotient (\<open>round64\<close>) and the platform's cast of a
  sample without a 64-bit integer value (\<open>cast_nonfinite\<close>):
  \<^item> \<open>greycomatrix env scaled levels normed\<close> stands for
    \<^verbatim>\<open>greycomatrix(scaled, [1], [0, pi/4, pi/2, 3*pi/4], normed=normed, levels=levels, symmetric=True)\<close>;
    its result \<^verbatim>\<open>P\<close> has shape \<^verbatim>\<open>(levels, levels, 1, 4)\<close> and is kept as the list of the
    four matrices \<^verbatim>\<open>P[:, :, 0, a]\<close>;
  \<^item> \<open>greycoprops env glcm prop\<close> stands for \<^verbatim>\<open>greycoprops(glcm, prop=prop)\<close>, an array
    of shape \<^verbatim>\<open>(1, 4)\<close> kept as a list of four numbers;
  \<^item> \<open>shannon_entropy env m\<close> stands for \<^verbatim>\<open>shannon_entropy(m, base=np.e)\<close>.
\<close>

type_synonym glcm = "real list list list"

record env =
  round64 :: "real \<Rightarrow> fl"
  cast_nonfinite :: "fl \<Rightarrow> int"
  greycomatrix :: "int list list \<Rightarrow> int \<Rightarrow> bool \<Rightarrow> error + glcm"
  greycoprops :: "glcm \<Rightarrow> string \<Rightarrow> real list"
  shannon_entropy :: "real list list \<Rightarrow> real"

subsection \<open>One tile\<close>

text \<open>
  The body of the two loops for the tile at \<open>(i, j)\<close>; \<open>img\<close> is the variable \<^verbatim>\<open>image\<close>.
  \<open>sub_image\<close> is a view of \<open>img\<close>, so the division in place changes \<open>img\<close> itself; \<open>divisor\<close> is
  \<^verbatim>\<open>sub_image.max()/(gray_levels-1)\<close>. The function returns the array as the body leaves it and either the texture value appended to \<open>out\<close> or the exception raised.
  With \<open>gray_levels = 1\<close> the squeezed matrix has one axis and indexing it with three
  raises.
\<close>

definition texture_of :: "env \<Rightarrow> string \<Rightarrow> int \<Rightarrow> glcm \<Rightarrow> error + real" where
  "texture_of env prop gray_levels glcm =
     (if prop = ''dissimilarity'' then Inr (np_mean (greycoprops env glcm ''dissimilarity''))
      else if prop = ''homogeneity'' then Inr (np_mean (greycoprops env glcm ''homogeneity''))
      else if prop = ''entropy'' then
        (if gray_levels = 1 then Inl IndexError
         else Inr (np_mean (map (\<lambda>i. shannon_entropy env (glcm ! i)) [0..<4])))
      else Inl ValueError_property)"

definition divisor :: "(real \<Rightarrow> fl) \<Rightarrow> image \<Rightarrow> int \<Rightarrow> error + fl" where
  "divisor rnd sub_image gray_levels =
     (case np_max (concat sub_image) of
        Inl e \<Rightarrow> Inl e
      | Inr m \<Rightarrow> Inr (fdiv rnd m (Fin (of_int (gray_levels - 1)))))"

text \<open>
  \<^verbatim>\<open>sub_image /= d\<close> as the view shows it afterwards, and
  \<^verbatim>\<open>(np.round_(sub_image, 0)).astype(int)\<close>.
\<close>

definition idiv :: "(real \<Rightarrow> fl) \<Rightarrow> image \<Rightarrow> fl \<Rightarrow> image" where
  "idiv rnd sub_image d = map (map (\<lambda>v. fdiv rnd v d)) sub_image"

definition round_astype :: "(fl \<Rightarrow> int) \<Rightarrow> image \<Rightarrow> int list list" where
  "round_astype nonfinite sub_image = map (map (\<lambda>v. astype_int nonfinite (np_round v))) sub_image"

definition tile_step ::
  "env \<Rightarrow> string \<Rightarrow> int \<Rightarrow> bool \<Rightarrow> int \<Rightarrow> int \<Rightarrow> nat \<Rightarrow> nat \<Rightarrow> image \<Rightarrow> image \<times> (error + real)" where
  "tile_step env prop gray_levels normed y x i j img =
     (let sub_image = slice2 img (int i) (int i + y) (int j) (int j + x)
      in case divisor (round64 env) sub_image gray_levels of
           Inl e \<Rightarrow> (img, Inl e)
         | Inr d \<Rightarrow>
             let img' = slice2_update (\<lambda>v. fdiv (round64 env) v d) img
                          (int i) (int i + y) (int j) (int j + x);
                 scaled = round_astype (cast_nonfinite env) (idiv (round64 env) sub_image d)
             in case greycomatrix env scaled gray_levels normed of
                  Inl e \<Rightarrow> (img', Inl e)
                | Inr glcm \<Rightarrow> (img', texture_of env prop gray_levels glcm))"

subsection \<open>The loops\<close>

fun texture_cols ::
  "env \<Rightarrow> string \<Rightarrow> int \<Rightarrow> bool \<Rightarrow> int \<Rightarrow> int \<Rightarrow> nat \<Rightarrow> nat list
     \<Rightarrow> image \<Rightarrow> real list \<Rightarrow> nat list \<Rightarrow> image \<times> (error + real list \<times> nat list)" where
  "texture_cols env prop gray_levels normed y x i [] img out j_num = (img, Inr (out, j_num))"
| "texture_cols env prop gray_levels normed y x i (j # js) img out j_num =
     (case tile_step env prop gray_levels normed y x i j img of
        (img', Inl e) \<Rightarrow> (img', Inl e)
      | (img', Inr texture) \<Rightarrow>
          texture_cols env prop gray_levels normed y x i js img' (out @ [texture]) (j_num @ [j]))"

text \<open>\<open>j_num\<close> is bound by the first pass of the outer loop: \<open>None\<close> before.\<close>

fun texture_rows ::
  "env \<Rightarrow> string \<Rightarrow> int \<Rightarrow> bool \<Rightarrow> int \<Rightarrow> int \<Rightarrow> nat list
     \<Rightarrow> image \<Rightarrow> real list \<Rightarrow> nat list \<Rightarrow> nat list option
     \<Rightarrow> image \<times> (error + real list \<times> nat list \<times> nat list option)" where
  "texture_rows env prop gray_levels normed y x [] img out i_num j_num =
     (img, Inr (out, i_num, j_num))"
| "texture_rows env prop gray_levels normed y x (i # is) img out i_num j_num =
     (case py_range (shape1 img) x of
        Inl e \<Rightarrow> (img, Inl e)
      | Inr js \<Rightarrow>
          (case texture_cols env prop gray_levels normed y x i js img out [] of
             (img', Inl e) \<Rightarrow> (img', Inl e)
           | (img', Inr (out', j_num')) \<Rightarrow>
               texture_rows env prop gray_levels normed y x is img' out' (i_num @ [i])
                 (Some j_num')))"

text \<open>
  The call. The first component of the result is the caller's array \<open>im\<close> as the call
  leaves it (\<^verbatim>\<open>image = im\<close> binds the same array, the copy is commented out); the second
  is the exception raised or the output grid.
\<close>

definition glcm_texture ::
  "env \<Rightarrow> image \<Rightarrow> int \<times> int \<Rightarrow> string \<Rightarrow> int \<Rightarrow> bool \<Rightarrow> image \<times> (error + real list list)" where
  "glcm_texture env im window prop gray_levels normed =
     (let img = im; y = fst window; x = snd window
      in case py_range (shape0 img) y of
           Inl e \<Rightarrow> (img, Inl e)
         | Inr is \<Rightarrow>
             (case texture_rows env prop gray_levels normed y x is img [] [] None of
                (img', Inl e) \<Rightarrow> (img', Inl e)
              | (img', Inr (out, i_num, j_num)) \<Rightarrow>
                  (case j_num of
                     None \<Rightarrow> (img', Inl UnboundLocalError)
                   | Some jn \<Rightarrow> (img', np_reshape out (length i_num) (length jn)))))"

subsection \<open>scikit-image\<close>

text \<open>
  The three routines as scikit-image implements them (the releases that still export
  \<^verbatim>\<open>greycomatrix\<close>).

  \<^verbatim>\<open>greycomatrix\<close> rejects an image with a negative value or with a value not below
  \<open>levels\<close>. For each angle it counts, over all pixels \<open>(r, c)\<close> whose neighbour
  \<open>(r + dr, c + dc)\<close> lies in the image, the pair of their levels; the offsets for the
  four angles at distance 1 are \<open>(0, 1)\<close>, \<open>(1, 1)\<close>, \<open>(1, 0)\<close>, \<open>(1, -1)\<close>. With
  \<^verbatim>\<open>symmetric=True\<close> the transposed counts are added, with \<^verbatim>\<open>normed=True\<close> each matrix
  is divided by its sum, a zero sum being replaced by 1.
\<close>

definition glcm_offsets :: "(int \<times> int) list" where
  "glcm_offsets = [(0, 1), (1, 1), (1, 0), (1, - 1)]"

definition glcm_pairs :: "int list list \<Rightarrow> int \<times> int \<Rightarrow> (int \<times> int) list" where
  "glcm_pairs img offset =
     (let rows = int (shape0 img); cols = int (shape1 img);
          offset_row = fst offset; offset_col = snd offset;
          start_row = max 0 (- offset_row); end_row = min rows (rows - offset_row);
          start_col = max 0 (- offset_col); end_col = min cols (cols - offset_col)
      in concat (map (\<lambda>r. map (\<lambda>c. (img ! nat r ! nat c,
                                       img ! nat (r + offset_row) ! nat (c + offset_col)))
                               [start_col..end_col - 1])
                     [start_row..end_row - 1]))"

definition glcm_matrix :: "int list list \<Rightarrow> nat \<Rightarrow> bool \<Rightarrow> int \<times> int \<Rightarrow> real list list" where
  "glcm_matrix img levels normed offset =
     (let pairs = glcm_pairs img offset;
          P = map (\<lambda>i. map (\<lambda>j. real (count_list pairs (int i, int j)
                                        + count_list pairs (int j, int i)))
                            [0..<levels])
                  [0..<levels];
          total = sum_list (concat P)
      in if normed then map (map (\<lambda>p. p / (if total = 0 then 1 else total))) P else P)"

definition sk_greycomatrix :: "int list list \<Rightarrow> int \<Rightarrow> bool \<Rightarrow> error + glcm" where
  "sk_greycomatrix img levels normed =
     (if \<exists>v\<in>set (concat img). v < 0
        then Inl (LibraryError ''Negative-valued images are not supported.'')
      else if \<exists>v\<in>set (concat img). levels \<le> v
        then Inl (LibraryError
          ''The maximum grayscale value in the image should be smaller than the number of levels.'')
      else Inr (map (glcm_matrix img (nat levels) normed) glcm_offsets))"

text \<open>
  \<^verbatim>\<open>greycoprops\<close> divides each matrix by its sum (a zero sum replaced by 1) and returns,
  per angle, the sum of the entries weighted by \<open>|i - j|\<close> for \<^verbatim>\<open>dissimilarity\<close> and by
  \<open>1 / (1 + (i - j)\<^sup>2)\<close> for \<^verbatim>\<open>homogeneity\<close>.
\<close>

definition glcm_weight :: "string \<Rightarrow> nat \<Rightarrow> nat \<Rightarrow> real" where
  "glcm_weight prop i j =
     (if prop = ''dissimilarity'' then \<bar>real i - real j\<bar>
      else 1 / (1 + (real i - real j)\<^sup>2))"

definition sk_greycoprops :: "glcm \<Rightarrow> string \<Rightarrow> real list" where
  "sk_greycoprops P prop =
     map (\<lambda>M. let total = sum_list (concat M);
                  s = (if total = 0 then 1 else total)
              in sum_list (concat (map (\<lambda>i. map (\<lambda>j. M ! i ! j / s * glcm_weight prop i j)
                                                 [0..<length (M ! i)])
                                       [0..<length M])))
         P"

text \<open>
  \<^verbatim>\<open>shannon_entropy(m, base)\<close> is \<^verbatim>\<open>scipy.stats.entropy(counts, base=base)\<close> for
  \<^verbatim>\<open>_, counts = np.unique(m, return_counts=True)\<close>: the entropy of the distribution of the
  values that occur in the array \<open>m\<close>, each value weighted by the number of cells holding
  it.
\<close>

definition np_log :: "real \<Rightarrow> real" where [code del]:
  "np_log p = ln p"

definition sk_shannon_entropy :: "real list list \<Rightarrow> real" where
  "sk_shannon_entropy m =
     (let a = concat m;
          counts = map (count_list a) (remdups a);
          total = sum_list counts
      in sum_list (map (\<lambda>c. - (real c / real total) * np_log (real c / real total)) counts))"

definition skimage :: "(fl \<Rightarrow> int) \<Rightarrow> env" where
  "skimage nonfinite =
     \<lparr>round64 = exact, cast_nonfinite = nonfinite, greycomatrix = sk_greycomatrix,
      greycoprops = sk_greycoprops, shannon_entropy = sk_shannon_entropy\<rparr>"

text \<open>
  \<open>skimage\<close> takes the three routines as above and keeps every quotient as it is; the
  concrete runs below use it. The two casts named above:
\<close>

definition cast_x86_64 :: "fl \<Rightarrow> int" where
  "cast_x86_64 v = - (2 ^ 63)"

definition cast_aarch64 :: "fl \<Rightarrow> int" where
  "cast_aarch64 v =
     (case v of
        Fin r \<Rightarrow> (if 0 \<le> r then 2 ^ 63 - 1 else - (2 ^ 63))
      | PInf \<Rightarrow> 2 ^ 63 - 1
      | NInf \<Rightarrow> - (2 ^ 63)
      | NaN \<Rightarrow> 0)"

subsection \<open>Notions used in the statements\<close>


text \<open>The number held by a finite sample.\<close>

definition fin_val :: "fl \<Rightarrow> real" where
  "fin_val v = (case v of Fin r \<Rightarrow> r | _ \<Rightarrow> 0)"


section \<open>Properties of the majority filter\<close>

lemma length_set_item [simp]: "length (set_item a i j v) = length a"
  by (simp add: set_item_def)

lemma length_nth_set_item [simp]: "length (set_item a i j v ! r) = length (a ! r)"
  by (cases "r = i"; cases "i < length a"; simp add: set_item_def list_update_beyond)

lemma nth_set_item:
  "r < length a \<Longrightarrow> c < length (a ! r) \<Longrightarrow>
   set_item a i j v ! r ! c = (if r = i \<and> c = j then v else a ! r ! c)"
  by (cases "r = i"; cases "c = j"; simp add: set_item_def)

lemma majority_cols_ok:
  assumes "\<forall>j\<in>set js. \<exists>v. block_fn (block_at x yy xx i j) (x ! i ! j) = Inr v"
    and "miny = max 0 (int i - yy)" and "maxy = min (int (shape0 x) - 1) (int i + yy)"
  shows "\<exists>out. majority_cols x xx miny maxy i js out0 = Inr out
           \<and> length out = length out0
           \<and> (\<forall>r. length (out ! r) = length (out0 ! r))
           \<and> (\<forall>r c. r < length out0 \<longrightarrow> c < length (out0 ! r) \<longrightarrow>
                 (if r = i \<and> c \<in> set js
                  then block_fn (block_at x yy xx i c) (x ! i ! c) = Inr (out ! r ! c)
                  else out ! r ! c = out0 ! r ! c))"
  using assms(1)
proof (induction js arbitrary: out0)
  case Nil
  then show ?case by simp
next
  case (Cons j js)
  from Cons.prems obtain v where v: "block_fn (block_at x yy xx i j) (x ! i ! j) = Inr v"
    by auto
  from Cons.prems have rest: "\<forall>j\<in>set js. \<exists>v. block_fn (block_at x yy xx i j) (x ! i ! j) = Inr v"
    by simp
  from Cons.IH [OF rest, of "set_item out0 i j v"]
  obtain out where out: "majority_cols x xx miny maxy i js (set_item out0 i j v) = Inr out"
    "length out = length out0" "\<forall>r. length (out ! r) = length (out0 ! r)"
    "\<forall>r c. r < length out0 \<longrightarrow> c < length (out0 ! r) \<longrightarrow>
        (if r = i \<and> c \<in> set js
         then block_fn (block_at x yy xx i c) (x ! i ! c) = Inr (out ! r ! c)
         else out ! r ! c = set_item out0 i j v ! r ! c)"
    by auto
  have step: "majority_cols x xx miny maxy i (j # js) out0 = Inr out"
    using v out(1) assms(2,3) by (simp add: block_at_def Let_def)
  have cells: "\<forall>r c. r < length out0 \<longrightarrow> c < length (out0 ! r) \<longrightarrow>
                 (if r = i \<and> c \<in> set (j # js)
                  then block_fn (block_at x yy xx i c) (x ! i ! c) = Inr (out ! r ! c)
                  else out ! r ! c = out0 ! r ! c)"
  proof (intro allI impI)
    fix r c assume rc: "r < length out0" "c < length (out0 ! r)"
    from out(4) rc have h: "(if r = i \<and> c \<in> set js
         then block_fn (block_at x yy xx i c) (x ! i ! c) = Inr (out ! r ! c)
         else out ! r ! c = set_item out0 i j v ! r ! c)" by blast
    show "(if r = i \<and> c \<in> set (j # js)
                  then block_fn (block_at x yy xx i c) (x ! i ! c) = Inr (out ! r ! c)
                  else out ! r ! c = out0 ! r ! c)"
    proof (cases "r = i \<and> c \<in> set js")
      case True
      with h show ?thesis by simp
    next
      case False
      with h have e: "out ! r ! c = set_item out0 i j v ! r ! c" by simp
      show ?thesis
      proof (cases "r = i \<and> c = j")
        case True
        with e rc v show ?thesis by (simp add: nth_set_item)
      next
        case F2: False
        with e rc False show ?thesis by (auto simp: nth_set_item)
      qed
    qed
  qed
  from step out(2,3) cells show ?case by blast
qed


lemma majority_rows_ok:
  assumes "\<forall>i\<in>set is. \<forall>j<shape1 x. \<exists>v. block_fn (block_at x yy xx i j) (x ! i ! j) = Inr v"
  shows "\<exists>out. majority_rows x yy xx is out0 = Inr out
           \<and> length out = length out0
           \<and> (\<forall>r. length (out ! r) = length (out0 ! r))
           \<and> (\<forall>r c. r < length out0 \<longrightarrow> c < length (out0 ! r) \<longrightarrow>
                 (if r \<in> set is \<and> c < shape1 x
                  then block_fn (block_at x yy xx r c) (x ! r ! c) = Inr (out ! r ! c)
                  else out ! r ! c = out0 ! r ! c))"
  using assms
proof (induction "is" arbitrary: out0)
  case Nil
  then show ?case by simp
next
  case (Cons i "is")
  have "\<forall>j\<in>set [0..<shape1 x]. \<exists>v. block_fn (block_at x yy xx i j) (x ! i ! j) = Inr v"
    using Cons.prems by simp
  from majority_cols_ok [OF this refl refl, where ?out0.0 = out0]
  obtain mid where mid:
    "majority_cols x xx (max 0 (int i - yy)) (min (int (shape0 x) - 1) (int i + yy)) i
       [0..<shape1 x] out0 = Inr mid"
    "length mid = length out0" "\<forall>r. length (mid ! r) = length (out0 ! r)"
    "\<forall>r c. r < length out0 \<longrightarrow> c < length (out0 ! r) \<longrightarrow>
        (if r = i \<and> c \<in> set [0..<shape1 x]
         then block_fn (block_at x yy xx i c) (x ! i ! c) = Inr (mid ! r ! c)
         else mid ! r ! c = out0 ! r ! c)"
    by blast
  have rest: "\<forall>i\<in>set is. \<forall>j<shape1 x. \<exists>v. block_fn (block_at x yy xx i j) (x ! i ! j) = Inr v"
    using Cons.prems by simp
  from Cons.IH [OF rest, of mid]
  obtain out where out: "majority_rows x yy xx is mid = Inr out"
    "length out = length mid" "\<forall>r. length (out ! r) = length (mid ! r)"
    "\<forall>r c. r < length mid \<longrightarrow> c < length (mid ! r) \<longrightarrow>
        (if r \<in> set is \<and> c < shape1 x
         then block_fn (block_at x yy xx r c) (x ! r ! c) = Inr (out ! r ! c)
         else out ! r ! c = mid ! r ! c)"
    by blast
  have step: "majority_rows x yy xx (i # is) out0 = Inr out"
    using mid(1) out(1) by (simp add: Let_def)
  have cells: "\<forall>r c. r < length out0 \<longrightarrow> c < length (out0 ! r) \<longrightarrow>
                 (if r \<in> set (i # is) \<and> c < shape1 x
                  then block_fn (block_at x yy xx r c) (x ! r ! c) = Inr (out ! r ! c)
                  else out ! r ! c = out0 ! r ! c)"
  proof (intro allI impI)
    fix r c assume rc: "r < length out0" "c < length (out0 ! r)"
    with mid(2,3) have rc': "r < length mid" "c < length (mid ! r)" by simp_all
    from out(4) rc' have h: "(if r \<in> set is \<and> c < shape1 x
         then block_fn (block_at x yy xx r c) (x ! r ! c) = Inr (out ! r ! c)
         else out ! r ! c = mid ! r ! c)" by blast
    from mid(4) rc have m: "(if r = i \<and> c \<in> set [0..<shape1 x]
         then block_fn (block_at x yy xx i c) (x ! i ! c) = Inr (mid ! r ! c)
         else mid ! r ! c = out0 ! r ! c)" by blast
    show "(if r \<in> set (i # is) \<and> c < shape1 x
                  then block_fn (block_at x yy xx r c) (x ! r ! c) = Inr (out ! r ! c)
                  else out ! r ! c = out0 ! r ! c)"
    proof (cases "r \<in> set is \<and> c < shape1 x")
      case True
      with h show ?thesis by simp
    next
      case False
      with h have e: "out ! r ! c = mid ! r ! c" by simp
      show ?thesis
      proof (cases "r = i \<and> c < shape1 x")
        case True
        with m e show ?thesis by simp
      next
        case F2: False
        with m e False show ?thesis by auto
      qed
    qed
  qed
  from step out(2,3) mid(2,3) cells show ?case by simp
qed

lemma np_argmax_nonempty:
  assumes "cs \<noteq> []"
  shows "\<exists>k. np_argmax cs = Inr k \<and> k < length cs \<and> (\<forall>c\<in>set cs. c \<le> cs ! k)
           \<and> (\<forall>k'<k. cs ! k' < cs ! k)"
proof -
  let ?m = "foldr max cs 0"
  have ub: "\<forall>c\<in>set cs. c \<le> foldr max cs (0::nat)" for cs :: "nat list"
    by (induction cs) auto
  have mem: "cs \<noteq> [] \<Longrightarrow> foldr max cs (0::nat) \<in> set cs" for cs :: "nat list"
  proof (induction cs)
    case Nil
    then show ?case by simp
  next
    case (Cons a cs)
    then show ?case by (cases "cs = []") (auto simp: max_def)
  qed
  let ?k = "length (takeWhile (\<lambda>c. c \<noteq> ?m) cs)"
  have k: "?k < length cs"
  proof -
    have "takeWhile (\<lambda>c. c \<noteq> ?m) cs \<noteq> cs"
      using mem [OF assms] by (auto simp: takeWhile_eq_all_conv)
    then have "?k \<noteq> length cs"
      by (metis takeWhile_eq_take take_all order_refl)
    then show ?thesis
      using length_takeWhile_le [of "\<lambda>c. c \<noteq> ?m" cs] by simp
  qed
  then have at: "cs ! ?k = ?m"
    using nth_length_takeWhile [of "\<lambda>c. c \<noteq> ?m" cs] by auto
  have before: "\<forall>k'<?k. cs ! k' < cs ! ?k"
  proof (intro allI impI)
    fix k' assume k': "k' < ?k"
    then have "cs ! k' \<noteq> ?m"
      using nth_mem [of k' "takeWhile (\<lambda>c. c \<noteq> ?m) cs"] set_takeWhileD [of "cs ! k'" "\<lambda>c. c \<noteq> ?m" cs]
      by (simp add: takeWhile_nth)
    moreover have "cs ! k' \<le> ?m" using ub [of cs] k' k by simp
    ultimately show "cs ! k' < cs ! ?k" using at by simp
  qed
  show ?thesis
    using assms k at ub [of cs] before by (simp add: np_argmax_def)
qed


lemma np_unique_fst: "fst (np_unique a) = sort_key sort_rank (remdups a)"
  by (simp add: np_unique_def Let_def)

lemma np_unique_snd: "snd (np_unique a) = map (count_list a) (fst (np_unique a))"
  by (simp add: np_unique_def Let_def)

lemma set_np_unique: "set (fst (np_unique a)) = set a"
  by (simp add: np_unique_fst)

lemma sorted_np_unique: "sorted (map sort_rank (fst (np_unique a)))"
  by (simp add: np_unique_fst)

lemma block_fn_nan: "block_fn b NaN = Inr NaN"
  by (simp add: block_fn_def isnan_def split: prod.splits)

lemma block_fn_one: "block_fn b (Fin 1) = Inr (Fin 1)"
  by (simp add: block_fn_def isnan_def split: prod.splits)

lemma block_fn_vote:
  assumes c: "c \<noteq> NaN" "c \<noteq> Fin 1" and ne: "concat b \<noteq> []"
  shows "\<exists>v. block_fn b c = Inr v \<and> v \<in> set (concat b)
           \<and> (\<forall>u\<in>set (concat b). count_list (concat b) u \<le> count_list (concat b) v)
           \<and> (\<forall>u\<in>set (concat b). count_list (concat b) u = count_list (concat b) v
                  \<longrightarrow> sort_rank v \<le> sort_rank u)"
proof -
  let ?a = "concat b"
  let ?us = "fst (np_unique ?a)"
  let ?cs = "snd (np_unique ?a)"
  have cs: "?cs = map (count_list ?a) ?us" by (rule np_unique_snd)
  have "?us \<noteq> []" using ne set_np_unique [of ?a] by (metis set_empty)
  then have "?cs \<noteq> []" using cs by simp
  from np_argmax_nonempty [OF this]
  obtain k where k: "np_argmax ?cs = Inr k" "k < length ?cs" "\<forall>c\<in>set ?cs. c \<le> ?cs ! k"
    "\<forall>k'<k. ?cs ! k' < ?cs ! k" by blast
  have kl: "k < length ?us" using k(2) cs by simp
  have res: "block_fn b c = Inr (?us ! k)"
    using c k(1) by (simp add: block_fn_def isnan_def case_prod_unfold)
  have mem: "?us ! k \<in> set ?a" using kl set_np_unique [of ?a] nth_mem by blast
  have cnt: "?cs ! k = count_list ?a (?us ! k)" using kl cs by simp
  have both: "count_list ?a u \<le> count_list ?a (?us ! k)
      \<and> (count_list ?a u = count_list ?a (?us ! k) \<longrightarrow> sort_rank (?us ! k) \<le> sort_rank u)"
    if u: "u \<in> set ?a" for u
  proof -
    from u have "u \<in> set ?us" by (simp add: set_np_unique)
    then obtain k' where k': "k' < length ?us" "?us ! k' = u" by (auto simp: in_set_conv_nth)
    then have ck': "?cs ! k' = count_list ?a u" using cs by simp
    have "?cs ! k' \<in> set ?cs" using k'(1) cs by simp
    then have le: "count_list ?a u \<le> count_list ?a (?us ! k)" using k(3) ck' cnt by auto
    have "sort_rank (?us ! k) \<le> sort_rank u" if eq: "count_list ?a u = count_list ?a (?us ! k)"
    proof -
      have "\<not> k' < k" using k(4) ck' cnt eq by auto
      then have "k \<le> k'" by simp
      then have "map sort_rank ?us ! k \<le> map sort_rank ?us ! k'"
        using sorted_np_unique [of ?a] k'(1) by (simp add: sorted_nth_mono del: nth_map)
      then show ?thesis using k' kl by simp
    qed
    with le show ?thesis by blast
  qed
  from res mem both show ?thesis by blast
qed

lemma py_slice_nth:
  assumes "0 \<le> s" "s \<le> e" "e \<le> int (length xs)"
  shows "py_slice xs s e = map ((!) xs) [nat s..<nat e]"
proof -
  have n: "nat s \<le> nat e" "nat e \<le> length xs"
    using assms by linarith+
  have "py_slice xs s e = take (nat e - nat s) (drop (nat s) xs)"
    using assms by (simp add: py_slice_def Let_def min_def nat_diff_distrib)
  also have "\<dots> = map ((!) xs) [nat s..<nat e]"
  proof (rule nth_equalityI)
    show "length (take (nat e - nat s) (drop (nat s) xs)) = length (map ((!) xs) [nat s..<nat e])"
      using n by simp
  next
    fix i assume "i < length (take (nat e - nat s) (drop (nat s) xs))"
    then have i: "i < nat e - nat s" by simp
    then show "take (nat e - nat s) (drop (nat s) xs) ! i = map ((!) xs) [nat s..<nat e] ! i"
      using n by simp
  qed
  finally show ?thesis .
qed

lemma rect_nth: "rect x \<Longrightarrow> r < length x \<Longrightarrow> length (x ! r) = shape1 x"
  by (simp add: rect_def)

lemma block_at_eq:
  assumes "rect x" "i < length x" "j < shape1 x" "0 \<le> yy" "0 \<le> xx"
  shows "block_at x yy xx i j =
     map (\<lambda>r. map (\<lambda>c. x ! r ! c) [j - nat xx..<min (shape1 x) (j + nat xx + 1)])
         [i - nat yy..<min (length x) (i + nat yy + 1)]"
proof -
  let ?r0 = "max 0 (int i - yy)" and ?r1 = "min (int (shape0 x) - 1) (int i + yy) + 1"
  let ?c0 = "max 0 (int j - xx)" and ?c1 = "min (int (shape1 x) - 1) (int j + xx) + 1"
  have r: "0 \<le> ?r0" "?r0 \<le> ?r1" "?r1 \<le> int (length x)"
    using assms by (auto simp: shape0_def)
  have c: "0 \<le> ?c0" "?c0 \<le> ?c1" "?c1 \<le> int (shape1 x)"
    using assms by auto
  have nr: "nat ?r0 = i - nat yy" "nat ?r1 = min (length x) (i + nat yy + 1)"
    using assms by (auto simp: shape0_def min_def max_def)
  have nc: "nat ?c0 = j - nat xx" "nat ?c1 = min (shape1 x) (j + nat xx + 1)"
    using assms by (auto simp: min_def max_def)
  have rows: "py_slice x ?r0 ?r1 = map ((!) x) [i - nat yy..<min (length x) (i + nat yy + 1)]"
    using py_slice_nth [OF r] nr by simp
  have cols: "py_slice (x ! r) ?c0 ?c1 = map ((!) (x ! r)) [j - nat xx..<min (shape1 x) (j + nat xx + 1)]"
    if "r < length x" for r
    using py_slice_nth [of ?c0 ?c1 "x ! r"] c nc rect_nth [OF assms(1) that] by simp
  show ?thesis
    unfolding block_at_def slice2_def rows
    by (simp add: cols)
qed

lemma center_in_block:
  assumes "rect x" "i < length x" "j < shape1 x" "0 \<le> yy" "0 \<le> xx"
  shows "x ! i ! j \<in> set (concat (block_at x yy xx i j))"
proof -
  let ?rs = "[i - nat yy..<min (length x) (i + nat yy + 1)]"
  let ?cs = "[j - nat xx..<min (shape1 x) (j + nat xx + 1)]"
  let ?f = "\<lambda>r. map (\<lambda>c. x ! r ! c) ?cs"
  have i: "i \<in> set ?rs" using assms(2) by simp
  have j: "j \<in> set ?cs" using assms(3) by simp
  have a: "x ! i ! j \<in> set (?f i)"
    unfolding set_map by (rule image_eqI [where x = j, OF refl j])
  have b: "?f i \<in> set (map ?f ?rs)"
    unfolding set_map by (rule image_eqI [where x = i, OF refl i])
  have "x ! i ! j \<in> set (concat (map ?f ?rs))"
    unfolding set_concat using a b by (rule UN_I [rotated])
  then show ?thesis
    unfolding block_at_eq [OF assms] .
qed


lemma in_set_nonempty: "v \<in> set ys \<Longrightarrow> ys \<noteq> []"
  by (cases ys) simp_all

lemma block_fn_total:
  assumes "concat b \<noteq> []"
  shows "\<exists>v. block_fn b c = Inr v"
proof (cases "c = NaN \<or> c = Fin 1")
  case True
  then show ?thesis using block_fn_nan block_fn_one by blast
next
  case False
  then show ?thesis using block_fn_vote [OF _ _ assms, of c] by blast
qed

lemma majority_filter_cells:
  assumes "rect x" "by mod 2 \<noteq> 0" "bx mod 2 \<noteq> 0" "0 < by" "0 < bx"
  shows "\<exists>out. majority_filter x (by, bx) = Inr out \<and> length out = length x
           \<and> (\<forall>i<length x. length (out ! i) = shape1 x)
           \<and> (\<forall>i<length x. \<forall>j<shape1 x.
                 block_fn (block_at x ((by - 1) div 2) ((bx - 1) div 2) i j) (x ! i ! j)
                   = Inr (out ! i ! j))"
proof -
  let ?yy = "(by - 1) div 2" and ?xx = "(bx - 1) div 2"
  let ?z = "map (map (\<lambda>_. Fin 0)) x"
  have nn: "0 \<le> ?yy" "0 \<le> ?xx" using assms(4,5) by simp_all
  have tot: "\<forall>i\<in>set [0..<shape0 x]. \<forall>j<shape1 x.
               \<exists>v. block_fn (block_at x ?yy ?xx i j) (x ! i ! j) = Inr v"
  proof (intro ballI allI impI)
    fix i j assume "i \<in> set [0..<shape0 x]" "j < shape1 x"
    then have ij: "i < length x" "j < shape1 x" by (simp_all add: shape0_def)
    from center_in_block [OF assms(1) ij nn]
    have "concat (block_at x ?yy ?xx i j) \<noteq> []" by (rule in_set_nonempty)
    then show "\<exists>v. block_fn (block_at x ?yy ?xx i j) (x ! i ! j) = Inr v"
      by (rule block_fn_total)
  qed
  from majority_rows_ok [OF tot, where ?out0.0 = ?z]
  obtain out where out: "majority_rows x ?yy ?xx [0..<shape0 x] ?z = Inr out"
    "length out = length ?z" "\<forall>r. length (out ! r) = length (?z ! r)"
    "\<forall>r c. r < length ?z \<longrightarrow> c < length (?z ! r) \<longrightarrow>
        (if r \<in> set [0..<shape0 x] \<and> c < shape1 x
         then block_fn (block_at x ?yy ?xx r c) (x ! r ! c) = Inr (out ! r ! c)
         else out ! r ! c = ?z ! r ! c)"
    by blast
  have mf: "majority_filter x (by, bx) = Inr out"
    using out(1) assms(2,3) by (simp add: majority_filter_def Let_def)
  have zl: "length (?z ! i) = shape1 x" if "i < length x" for i
    using that rect_nth [OF assms(1) that] by simp
  have len: "\<forall>i<length x. length (out ! i) = shape1 x"
    using out(3) zl by simp
  have cells: "\<forall>i<length x. \<forall>j<shape1 x.
      block_fn (block_at x ?yy ?xx i j) (x ! i ! j) = Inr (out ! i ! j)"
  proof (intro allI impI)
    fix i j assume ij: "i < length x" "j < shape1 x"
    then have "i < length ?z" "j < length (?z ! i)" using zl by simp_all
    with out(4) have "(if i \<in> set [0..<shape0 x] \<and> j < shape1 x
         then block_fn (block_at x ?yy ?xx i j) (x ! i ! j) = Inr (out ! i ! j)
         else out ! i ! j = ?z ! i ! j)" by blast
    then show "block_fn (block_at x ?yy ?xx i j) (x ! i ! j) = Inr (out ! i ! j)"
      using ij by (simp add: shape0_def)
  qed
  from mf out(2) len cells show ?thesis by simp
qed

lemma rect_sample: "rect sample_classes"
  by (simp add: rect_def shape1_def sample_classes_def)

text \<open>
  Claim C7. At a pixel whose own value is neither NaN nor 1, the filter writes the value
  that occurs most often in the window clipped to the array, NaN being counted like any
  other value; among the values with the highest count it writes the first in the order
  of \<open>sort_rank\<close>, that is the smallest one. Here \<open>w\<close> is the list of the window's values.
  For the window \<open>{2, 2, 3, 3}\<close> (each corner of a 2 by 2 array under a 3 by 3 block) the
  output is 2.
\<close>

theorem majority_filter_vote:
  assumes "rect x" "by mod 2 \<noteq> 0" "bx mod 2 \<noteq> 0" "0 < by" "0 < bx"
    and "i < length x" "j < length (x ! i)"
    and "x ! i ! j \<noteq> NaN" "x ! i ! j \<noteq> Fin 1"
    and "w = concat (block_at x ((by - 1) div 2) ((bx - 1) div 2) i j)"
  shows "\<exists>out. majority_filter x (by, bx) = Inr out
           \<and> out ! i ! j \<in> set w
           \<and> (\<forall>u\<in>set w. count_list w u \<le> count_list w (out ! i ! j))
           \<and> (\<forall>u\<in>set w. count_list w u = count_list w (out ! i ! j)
                  \<longrightarrow> sort_rank (out ! i ! j) \<le> sort_rank u)
           \<and> majority_filter [[Fin 2, Fin 2], [Fin 3, Fin 3]] (3, 3)
                 = Inr [[Fin 2, Fin 2], [Fin 2, Fin 2]]"
proof -
  let ?yy = "(by - 1) div 2" and ?xx = "(bx - 1) div 2"
  have nn: "0 \<le> ?yy" "0 \<le> ?xx" using assms(4,5) by simp_all
  from majority_filter_cells [OF assms(1-5)]
  obtain out where out: "majority_filter x (by, bx) = Inr out"
    "\<forall>i<length x. \<forall>j<shape1 x.
       block_fn (block_at x ?yy ?xx i j) (x ! i ! j) = Inr (out ! i ! j)"
    by blast
  have j: "j < shape1 x" using assms(6,7) rect_nth [OF assms(1)] by simp
  with out(2) assms(6)
  have cell: "block_fn (block_at x ?yy ?xx i j) (x ! i ! j) = Inr (out ! i ! j)"
    by blast
  have ne: "concat (block_at x ?yy ?xx i j) \<noteq> []"
    using center_in_block [OF assms(1,6) j nn] by (rule in_set_nonempty)
  from block_fn_vote [OF assms(8,9) ne] cell
  have vote: "out ! i ! j \<in> set w
           \<and> (\<forall>u\<in>set w. count_list w u \<le> count_list w (out ! i ! j))
           \<and> (\<forall>u\<in>set w. count_list w u = count_list w (out ! i ! j)
                  \<longrightarrow> sort_rank (out ! i ! j) \<le> sort_rank u)"
    unfolding assms(10) by auto
  have tie: "majority_filter [[Fin 2, Fin 2], [Fin 3, Fin 3]] (3, 3)
                 = Inr [[Fin 2, Fin 2], [Fin 2, Fin 2]]"
    by code_simp
  from out(1) vote tie show ?thesis by blast
qed

theorem majority_filter_vote_witness:
  "rect sample_classes \<and> (3::int) mod 2 \<noteq> 0 \<and> (0::int) < 3
     \<and> sample_classes ! 0 ! 0 = Fin 2
     \<and> concat (block_at sample_classes 1 1 0 0) = [Fin 2, NaN, Fin 3, Fin 3]
     \<and> (\<exists>out. majority_filter sample_classes (3, 3) = Inr out \<and> out ! 0 ! 0 = Fin 3)"
proof -
  let ?w = "concat (block_at sample_classes ((3 - 1) div 2) ((3 - 1) div 2) 0 0)"
  have c: "sample_classes ! 0 ! 0 = Fin 2"
    "0 < length sample_classes" "0 < length (sample_classes ! 0)"
    by (simp_all add: sample_classes_def)
  have w: "?w = [Fin 2, NaN, Fin 3, Fin 3]"
    by (simp add: sample_classes_def block_at_def slice2_def py_slice_def shape0_def shape1_def)
  from majority_filter_vote [OF rect_sample, of 3 3 0 0 ?w] c
  obtain out where out: "majority_filter sample_classes (3, 3) = Inr out"
    "out ! 0 ! 0 \<in> set ?w"
    "\<forall>u\<in>set ?w. count_list ?w u \<le> count_list ?w (out ! 0 ! 0)"
    by auto
  from out(3) have "count_list ?w (Fin 3) \<le> count_list ?w (out ! 0 ! 0)"
    unfolding w by simp
  with out(2) have "out ! 0 ! 0 = Fin 3"
    unfolding w by auto
  with out(1) c w rect_sample show ?thesis by simp
qed

text \<open>
  Claim C8. The overrides on the centre value: a pixel that is NaN stays NaN and a pixel
  that is 1 stays 1, whatever its neighbours are; the NaN test comes first.
\<close>

theorem majority_filter_center_override:
  assumes "rect x" "by mod 2 \<noteq> 0" "bx mod 2 \<noteq> 0" "0 < by" "0 < bx"
    and "i < length x" "j < length (x ! i)"
    and "x ! i ! j = NaN \<or> x ! i ! j = Fin 1"
  shows "\<exists>out. majority_filter x (by, bx) = Inr out
           \<and> out ! i ! j = (if isnan (x ! i ! j) then NaN else Fin 1)"
proof -
  from majority_filter_cells [OF assms(1-5)]
  obtain out where out: "majority_filter x (by, bx) = Inr out"
    "\<forall>i<length x. \<forall>j<shape1 x.
       block_fn (block_at x ((by - 1) div 2) ((bx - 1) div 2) i j) (x ! i ! j) = Inr (out ! i ! j)"
    by blast
  have j: "j < shape1 x" using assms(6,7) rect_nth [OF assms(1)] by simp
  with out(2) assms(6)
  have "block_fn (block_at x ((by - 1) div 2) ((bx - 1) div 2) i j) (x ! i ! j) = Inr (out ! i ! j)"
    by blast
  with assms(8) have "out ! i ! j = (if isnan (x ! i ! j) then NaN else Fin 1)"
    by (auto simp: block_fn_nan block_fn_one isnan_def)
  with out(1) show ?thesis by blast
qed

theorem majority_filter_center_override_witness:
  "rect sample_classes \<and> (3::int) mod 2 \<noteq> 0 \<and> (0::int) < 3
     \<and> sample_classes ! 0 ! 1 = NaN \<and> sample_classes ! 0 ! 2 = Fin 1
     \<and> (\<exists>out. majority_filter sample_classes (3, 3) = Inr out \<and> out ! 0 ! 1 = NaN)
     \<and> (\<exists>out. majority_filter sample_classes (3, 3) = Inr out \<and> out ! 0 ! 2 = Fin 1)"
proof -
  have c: "sample_classes ! 0 ! 1 = NaN" "sample_classes ! 0 ! 2 = Fin 1"
    "0 < length sample_classes" "1 < length (sample_classes ! 0)" "2 < length (sample_classes ! 0)"
    by (simp_all add: sample_classes_def)
  have a: "\<exists>out. majority_filter sample_classes (3, 3) = Inr out \<and> out ! 0 ! 1 = NaN"
    using majority_filter_center_override [OF rect_sample, of 3 3 0 1] c
    by (simp add: isnan_def)
  have b: "\<exists>out. majority_filter sample_classes (3, 3) = Inr out \<and> out ! 0 ! 2 = Fin 1"
    using majority_filter_center_override [OF rect_sample, of 3 3 0 2] c
    by (simp add: isnan_def)
  from a b c rect_sample show ?thesis by simp
qed

text \<open>
  Claim C9. For a rectangular array and a block of positive odd sides the call returns an
  array whose rows have the lengths of the input's rows; every pixel \<open>(i, j)\<close> holds the
  result of \<open>block_fn\<close> on its window, and that window consists of the cells \<open>(r, c)\<close> of
  the input with \<open>i - yy \<le> r \<le> i + yy\<close> and \<open>j - xx \<le> c \<le> j + xx\<close> that lie inside the array:
  it is cut at the borders, it does not wrap around and nothing is added to it.
\<close>

theorem majority_filter_shape:
  assumes "rect x" "by mod 2 \<noteq> 0" "bx mod 2 \<noteq> 0" "0 < by" "0 < bx"
  shows "\<exists>out. majority_filter x (by, bx) = Inr out
           \<and> map length out = map length x
           \<and> (\<forall>i<length x. \<forall>j<length (x ! i).
                 block_fn (block_at x ((by - 1) div 2) ((bx - 1) div 2) i j) (x ! i ! j)
                   = Inr (out ! i ! j)
                 \<and> block_at x ((by - 1) div 2) ((bx - 1) div 2) i j
                   = map (\<lambda>r. map (\<lambda>c. x ! r ! c)
                          [j - nat ((bx - 1) div 2)..<min (length (x ! i)) (j + nat ((bx - 1) div 2) + 1)])
                       [i - nat ((by - 1) div 2)..<min (length x) (i + nat ((by - 1) div 2) + 1)])"
proof -
  let ?yy = "(by - 1) div 2" and ?xx = "(bx - 1) div 2"
  have nn: "0 \<le> ?yy" "0 \<le> ?xx" using assms(4,5) by simp_all
  from majority_filter_cells [OF assms]
  obtain out where out: "majority_filter x (by, bx) = Inr out" "length out = length x"
    "\<forall>i<length x. length (out ! i) = shape1 x"
    "\<forall>i<length x. \<forall>j<shape1 x.
       block_fn (block_at x ?yy ?xx i j) (x ! i ! j) = Inr (out ! i ! j)"
    by blast
  have lens: "map length out = map length x"
    using out(2,3) rect_nth [OF assms(1)] by (intro nth_equalityI) simp_all
  have cells: "\<forall>i<length x. \<forall>j<length (x ! i).
                 block_fn (block_at x ?yy ?xx i j) (x ! i ! j) = Inr (out ! i ! j)
                 \<and> block_at x ?yy ?xx i j
                   = map (\<lambda>r. map (\<lambda>c. x ! r ! c)
                          [j - nat ?xx..<min (length (x ! i)) (j + nat ?xx + 1)])
                       [i - nat ?yy..<min (length x) (i + nat ?yy + 1)]"
  proof (intro allI impI)
    fix i j assume i: "i < length x" and "j < length (x ! i)"
    then have j: "j < shape1 x" and l: "length (x ! i) = shape1 x"
      using rect_nth [OF assms(1) i] by simp_all
    show "block_fn (block_at x ?yy ?xx i j) (x ! i ! j) = Inr (out ! i ! j)
                 \<and> block_at x ?yy ?xx i j
                   = map (\<lambda>r. map (\<lambda>c. x ! r ! c)
                          [j - nat ?xx..<min (length (x ! i)) (j + nat ?xx + 1)])
                       [i - nat ?yy..<min (length x) (i + nat ?yy + 1)]"
      using out(4) i j block_at_eq [OF assms(1) i j nn] unfolding l by blast
  qed
  from out(1) lens cells show ?thesis by blast
qed

theorem majority_filter_shape_witness:
  "rect sample_classes \<and> (3::int) mod 2 \<noteq> 0 \<and> (0::int) < 3
     \<and> (\<exists>out. majority_filter sample_classes (3, 3) = Inr out
            \<and> map length out = [3, 3, 3])"
proof -
  from majority_filter_shape [OF rect_sample, of 3 3]
  obtain out where "majority_filter sample_classes (3, 3) = Inr out"
    "map length out = map length sample_classes"
    by auto
  then show ?thesis using rect_sample by (simp add: sample_classes_def)
qed

text \<open>
  Claim C10. The value written at a pixel occurs in the clipped window centred at that
  pixel.
\<close>

theorem majority_filter_output_in_window:
  assumes "rect x" "by mod 2 \<noteq> 0" "bx mod 2 \<noteq> 0" "0 < by" "0 < bx"
    and "i < length x" "j < length (x ! i)"
  shows "\<exists>out. majority_filter x (by, bx) = Inr out
           \<and> out ! i ! j \<in> set (concat (block_at x ((by - 1) div 2) ((bx - 1) div 2) i j))"
proof -
  let ?yy = "(by - 1) div 2" and ?xx = "(bx - 1) div 2"
  let ?w = "block_at x ?yy ?xx i j"
  have nn: "0 \<le> ?yy" "0 \<le> ?xx" using assms(4,5) by simp_all
  from majority_filter_cells [OF assms(1-5)]
  obtain out where out: "majority_filter x (by, bx) = Inr out"
    "\<forall>i<length x. \<forall>j<shape1 x. block_fn (block_at x ?yy ?xx i j) (x ! i ! j) = Inr (out ! i ! j)"
    by blast
  have j: "j < shape1 x" using assms(6,7) rect_nth [OF assms(1)] by simp
  with out(2) assms(6)
  have cell: "block_fn ?w (x ! i ! j) = Inr (out ! i ! j)"
    by blast
  have c: "x ! i ! j \<in> set (concat ?w)"
    by (rule center_in_block [OF assms(1,6) j nn])
  have "out ! i ! j \<in> set (concat ?w)"
  proof (cases "x ! i ! j = NaN \<or> x ! i ! j = Fin 1")
    case True
    then have "out ! i ! j = x ! i ! j"
      using cell by (auto simp: block_fn_nan block_fn_one)
    with c show ?thesis by simp
  next
    case False
    have ne: "concat ?w \<noteq> []" using c by (rule in_set_nonempty)
    from False block_fn_vote [OF _ _ ne, of "x ! i ! j"] cell show ?thesis by auto
  qed
  with out(1) show ?thesis by blast
qed

theorem majority_filter_output_in_window_witness:
  "rect sample_classes \<and> (3::int) mod 2 \<noteq> 0 \<and> (0::int) < 3
     \<and> concat (block_at sample_classes 1 1 2 2) = [Fin 3, NaN, NaN, Fin 5]
     \<and> (\<exists>out. majority_filter sample_classes (3, 3) = Inr out
            \<and> out ! 2 ! 2 \<in> {Fin 3, NaN, Fin 5})"
proof -
  let ?w = "concat (block_at sample_classes ((3 - 1) div 2) ((3 - 1) div 2) 2 2)"
  have c: "2 < length sample_classes" "2 < length (sample_classes ! 2)"
    by (simp_all add: sample_classes_def)
  have w: "?w = [Fin 3, NaN, NaN, Fin 5]"
    by (simp add: sample_classes_def block_at_def slice2_def py_slice_def shape0_def shape1_def)
  from majority_filter_output_in_window [OF rect_sample, of 3 3 2 2] c
  obtain out where out: "majority_filter sample_classes (3, 3) = Inr out"
    "out ! 2 ! 2 \<in> set ?w"
    by auto
  from out(2) have "out ! 2 ! 2 \<in> {Fin 3, NaN, Fin 5}"
    unfolding w by auto
  with out(1) w rect_sample show ?thesis by simp
qed

section \<open>Properties of the texture engine\<close>

subsection \<open>Slices and the loop body\<close>

lemma nat_int_minus: "nat (int b - int a) = b - a"
  by arith

lemma py_slice_nat:
  "py_slice xs (int a) (int b) = map ((!) xs) [min a (length xs)..<min b (length xs)]"
proof -
  let ?n = "length xs"
  have "py_slice xs (int a) (int b)
          = take (min b ?n - min a ?n) (drop (min a ?n) xs)"
    by (simp add: py_slice_def Let_def min_def nat_int_minus)
  also have "\<dots> = map ((!) xs) [min a ?n..<min b ?n]"
  proof (rule nth_equalityI)
    show "length (take (min b ?n - min a ?n) (drop (min a ?n) xs))
            = length (map ((!) xs) [min a ?n..<min b ?n])"
      by (auto simp: min_def)
  next
    fix k assume "k < length (take (min b ?n - min a ?n) (drop (min a ?n) xs))"
    then have k: "k < min b ?n - min a ?n" by simp
    then have a: "min a ?n = a" by arith
    from k a have "a + k < min b ?n" by arith
    then have "[a..<min b ?n] ! k = a + k" by (rule nth_upt)
    with k show "take (min b ?n - min a ?n) (drop (min a ?n) xs) ! k
                 = map ((!) xs) [min a ?n..<min b ?n] ! k"
      by (simp add: a)
  qed
  finally show ?thesis .
qed

lemma length_slice_update [simp]: "length (slice_update f xs (int a) (int b)) = length xs"
  by (simp add: slice_update_def Let_def min_def)


lemma slice2_nat:
  "slice2 x (int a) (int b) (int c) (int d)
     = map (\<lambda>r. map (\<lambda>k. x ! r ! k) [min c (length (x ! r))..<min d (length (x ! r))])
           [min a (length x)..<min b (length x)]"
  unfolding slice2_def py_slice_nat [of x a b] by (simp add: py_slice_nat)























lemma fmax_not_nan:
  "fmax a b \<noteq> NaN \<Longrightarrow> a \<noteq> NaN \<and> b \<noteq> NaN \<and> sort_rank a \<le> sort_rank (fmax a b)
     \<and> sort_rank b \<le> sort_rank (fmax a b)"
  by (auto simp: fmax_def isnan_def)

lemma foldl_fmax:
  "foldl fmax v vs \<noteq> NaN \<Longrightarrow>
     v \<noteq> NaN \<and> sort_rank v \<le> sort_rank (foldl fmax v vs)
     \<and> (\<forall>u\<in>set vs. u \<noteq> NaN \<and> sort_rank u \<le> sort_rank (foldl fmax v vs))"
proof (induction vs arbitrary: v)
  case Nil
  then show ?case by simp
next
  case (Cons w vs)
  from Cons.prems have n: "foldl fmax (fmax v w) vs \<noteq> NaN" by simp
  from Cons.IH [OF n]
  have ih: "fmax v w \<noteq> NaN" "sort_rank (fmax v w) \<le> sort_rank (foldl fmax (fmax v w) vs)"
    "\<forall>u\<in>set vs. u \<noteq> NaN \<and> sort_rank u \<le> sort_rank (foldl fmax (fmax v w) vs)"
    by simp_all
  from fmax_not_nan [OF ih(1)]
  have f: "v \<noteq> NaN" "w \<noteq> NaN" "sort_rank v \<le> sort_rank (fmax v w)" "sort_rank w \<le> sort_rank (fmax v w)"
    by simp_all
  have "sort_rank v \<le> sort_rank (foldl fmax (fmax v w) vs)"
    using f(3) ih(2) by (rule order_trans)
  moreover have "sort_rank w \<le> sort_rank (foldl fmax (fmax v w) vs)"
    using f(4) ih(2) by (rule order_trans)
  ultimately show ?case using f(1,2) ih(3) by simp
qed

lemma np_max_bound:
  assumes "np_max a = Inr (Fin m)" "u \<in> set a"
  shows "u \<noteq> NaN \<and> sort_rank u \<le> sort_rank (Fin m)"
proof (cases a)
  case Nil
  with assms show ?thesis by simp
next
  case (Cons v vs)
  with assms(1) have m: "foldl fmax v vs = Fin m" by (simp add: np_max_def)
  then have "foldl fmax v vs \<noteq> NaN" by simp
  from foldl_fmax [OF this] assms(2) Cons show ?thesis unfolding m by auto
qed

lemma rank_le_Fin:
  "u \<noteq> NaN \<Longrightarrow> sort_rank u \<le> sort_rank (Fin m) \<Longrightarrow> u = NInf \<or> (\<exists>r. u = Fin r \<and> r \<le> m)"
  by (cases u) (auto simp: sort_rank_def)

lemma fdiv_by_zero_divisor:
  assumes "u = NInf \<or> (\<exists>r. u = Fin r \<and> r \<le> 0)"
  shows "\<not> is_finite (fdiv rnd u (fdiv rnd (Fin 0) (Fin q)))"
  using assms by (cases "q = 0") (auto simp: fdiv_def is_finite_def split: if_splits)

lemma tile_step_unfold:
  assumes "divisor (round64 env) (slice2 img (int i) (int i + y) (int j) (int j + x)) gray_levels = Inr d"
  shows "tile_step env prop gray_levels normed y x i j img
           = (slice2_update (\<lambda>v. fdiv (round64 env) v d) img (int i) (int i + y) (int j) (int j + x),
              case greycomatrix env
                     (round_astype (cast_nonfinite env)
                        (idiv (round64 env) (slice2 img (int i) (int i + y) (int j) (int j + x)) d))
                     gray_levels normed of
                Inl e \<Rightarrow> Inl e
              | Inr glcm \<Rightarrow> texture_of env prop gray_levels glcm)"
  unfolding tile_step_def Let_def assms
  by (simp split: sum.splits)

lemma py_range_first:
  assumes "0 < x" "0 < n"
  shows "\<exists>js. py_range n x = Inr (0 # js)"
proof -
  have "nat x \<le> n + nat x - 1" using assms by linarith
  then have "nat x div nat x \<le> (n + nat x - 1) div nat x" by (rule div_le_mono)
  then have "0 < (n + nat x - 1) div nat x" using assms(1) by simp
  then have "[0..<(n + nat x - 1) div nat x] = 0 # [Suc 0..<(n + nat x - 1) div nat x]"
    by (rule upt_conv_Cons)
  then show ?thesis using assms(1) by (simp add: py_range_def)
qed

lemma glcm_texture_first_tile_error:
  assumes "0 < y" "0 < x" "0 < shape0 im" "0 < shape1 im"
    and "tile_step env prp L normed y x 0 0 im = (img', Inl e)"
  shows "glcm_texture env im (y, x) prp L normed = (img', Inl e)"
proof -
  from py_range_first [OF assms(1,3)] obtain is' where i: "py_range (shape0 im) y = Inr (0 # is')"
    by blast
  from py_range_first [OF assms(2,4)] obtain js where j: "py_range (shape1 im) x = Inr (0 # js)"
    by blast
  have c: "texture_cols env prp L normed y x 0 (0 # js) im [] [] = (img', Inl e)"
    using assms(5) by simp
  have r: "texture_rows env prp L normed y x (0 # is') im [] [] None = (img', Inl e)"
    using j c by simp
  show ?thesis
    unfolding glcm_texture_def Let_def fst_conv snd_conv i using r by simp
qed

lemma first_tile_nonempty:
  assumes "0 < y" "0 < x" "0 < shape0 im" "0 < shape1 im"
  shows "concat (slice2 im 0 y 0 x) \<noteq> []"
proof -
  have im: "im \<noteq> []" using assms(3) by (auto simp: shape0_def)
  then have l0: "length (im ! 0) = shape1 im" by (cases im) (simp_all add: shape1_def)
  let ?R = "min (nat y) (length im)" and ?C = "min (nat x) (length (im ! 0))"
  have R: "0 < ?R" using assms(1) im by simp
  have C: "0 < ?C" using assms(2,4) l0 by simp
  have "slice2 im (int 0) (int (nat y)) (int 0) (int (nat x))
          = map (\<lambda>r. map (\<lambda>k. im ! r ! k) [min 0 (length (im ! r))..<min (nat x) (length (im ! r))])
                [min 0 (length im)..<?R]"
    by (rule slice2_nat)
  also have "[min 0 (length im)..<?R] = 0 # [Suc 0..<?R]"
    using R by (simp add: upt_conv_Cons)
  finally have "slice2 im 0 y 0 x
      = map (\<lambda>k. im ! 0 ! k) [0..<?C]
        # map (\<lambda>r. map (\<lambda>k. im ! r ! k) [min 0 (length (im ! r))..<min (nat x) (length (im ! r))])
              [Suc 0..<?R]"
    using assms(1,2) by simp
  moreover have "map (\<lambda>k. im ! 0 ! k) [0..<?C] \<noteq> []" using C by simp
  ultimately show ?thesis by simp
qed


lemma uniform_window_run: "glcm_texture \<lparr>round64 = exact, cast_nonfinite = cast_x86_64, greycomatrix = sk_greycomatrix,
      greycoprops = sk_greycoprops, shannon_entropy = h\<rparr> [[Fin 5, Fin 5], [Fin 5, Fin 5]] (2, 2) ''entropy'' 2 True
   = ([[Fin 1, Fin 1], [Fin 1, Fin 1]], Inr [[np_mean (map h [[[0, 0], [0, 1]], [[0, 0], [0, 1]], [[0, 0], [0, 1]], [[0, 0], [0, 1]]])]])"
  apply code_simp
  apply simp
  done

lemma entropy_one_cell: "sk_shannon_entropy [[0, 0], [0, 1]] = - (3 / 4) * ln (3 / 4) - (1 / 4) * ln (1 / 4)"
  by (simp add: sk_shannon_entropy_def np_log_def)

lemma entropy_one_cell_pos: "0 < - (3 / 4) * ln (3 / 4) - (1 / 4) * ln (1 / 4 :: real)"
proof -
  have "ln (3 / 4 :: real) < 0" by simp
  moreover have "ln (1 / 4 :: real) < 0" by simp
  ultimately show ?thesis by linarith
qed

subsection \<open>The loops run to the end\<close>








subsection \<open>Quantization\<close>

lemma rank_between:
  assumes "sort_rank (Fin lo) \<le> sort_rank v" "sort_rank v \<le> sort_rank (Fin hi)"
  shows "\<exists>q. v = Fin q \<and> lo \<le> q \<and> q \<le> hi"
  using assms by (cases v) (auto simp: sort_rank_def)

lemma round_half_even_quarter:
  assumes "0 \<le> q" "q \<le> of_int n + 1 / 4"
  shows "0 \<le> round_half_even q \<and> round_half_even q \<le> n"
proof -
  have f0: "0 \<le> \<lfloor>q\<rfloor>" using assms(1) by simp
  have "q < of_int (n + 1)" using assms(2) by simp
  then have "\<lfloor>q\<rfloor> < n + 1" by (rule floor_less_iff [THEN iffD2])
  then have f1: "\<lfloor>q\<rfloor> \<le> n" by simp
  have top: "q - of_int \<lfloor>q\<rfloor> < 1 / 2" if "\<lfloor>q\<rfloor> = n"
    using assms(2) that by simp
  have r: "round_half_even q = \<lfloor>q\<rfloor> \<or> round_half_even q = \<lfloor>q\<rfloor> + 1"
    by (simp add: round_half_even_def Let_def)
  show ?thesis
  proof (cases "\<lfloor>q\<rfloor> = n")
    case True
    from top [OF True] have "round_half_even q = \<lfloor>q\<rfloor>"
      by (simp add: round_half_even_def Let_def)
    with f0 True show ?thesis by simp
  next
    case False
    with f1 have "\<lfloor>q\<rfloor> + 1 \<le> n" by simp
    with r f0 show ?thesis by linarith
  qed
qed

lemma astype_int_of_int:
  assumes "- (2 ^ 63) \<le> z" "z < 2 ^ 63"
  shows "astype_int nonfinite (Fin (of_int z)) = z"
  using assms by (simp add: astype_int_def Let_def)

lemma quotient_bound:
  fixes m n dv r :: real
  assumes "0 < m" "1 \<le> n" "n \<le> 2 ^ 50" "(1 - 1 / 2 ^ 53) * (m / n) \<le> dv" "0 \<le> r" "r \<le> m"
  shows "0 < dv" and "r / dv \<le> n + 1 / 4"
proof -
  define c :: real where "c = 1 - 1 / 2 ^ 53"
  have n0: "0 < n" using assms(2) by simp
  have x0: "0 < m / n" using assms(1) n0 by simp
  have c0: "0 < c" by (simp add: c_def)
  have lb: "c * (m / n) \<le> dv" using assms(4) by (simp only: c_def)
  have "0 < c * (m / n)" using c0 x0 by (rule mult_pos_pos)
  with lb show dv: "0 < dv" by linarith
  have nu: "n * (1 / 2 ^ 53) \<le> 1 / 8"
  proof -
    have "n * (1 / 2 ^ 53) \<le> 2 ^ 50 * (1 / 2 ^ 53 :: real)"
      using assms(3) by (intro mult_right_mono) simp_all
    then show ?thesis by simp
  qed
  have nc: "n \<le> (n + 1 / 4) * c"
    using nu by (simp add: c_def algebra_simps)
  have mn: "n * (m / n) = m" using n0 by simp
  have "n * (m / n) \<le> ((n + 1 / 4) * c) * (m / n)"
    using nc x0 by (intro mult_right_mono) simp_all
  then have "m \<le> (n + 1 / 4) * (c * (m / n))"
    unfolding mn by (simp only: mult.assoc)
  also have "\<dots> \<le> (n + 1 / 4) * dv"
    using lb n0 by (intro mult_left_mono) simp_all
  finally have "m \<le> (n + 1 / 4) * dv" .
  with assms(6) have "r \<le> (n + 1 / 4) * dv" by linarith
  then show "r / dv \<le> n + 1 / 4" using dv by (simp add: pos_divide_le_eq)
qed

subsection \<open>The claims\<close>

text \<open>
  Claim C1. A tile whose maximum is zero is not rejected. The division in place turns
  every sample of the tile into NaN or an infinity, in the caller's array, and the call
  goes on with the integer cast of these values: the result of the tile is the error of
  \<^verbatim>\<open>greycomatrix\<close> if it refuses the cast levels, and otherwise what the branch on the
  property gives for any other tile (the texture value, for a supported property). The
  engine has no check and no error of its own for such a tile.
\<close>

theorem tile_step_degenerate:
  assumes "np_max (concat (slice2 img (int i) (int i + y) (int j) (int j + x))) = Inr (Fin 0)"
    and "sub_image = slice2 img (int i) (int i + y) (int j) (int j + x)"
  shows "\<exists>d. divisor (round64 env) sub_image gray_levels = Inr d
           \<and> (\<forall>row\<in>set (idiv (round64 env) sub_image d). \<forall>v\<in>set row. \<not> is_finite v)
           \<and> tile_step env prop gray_levels normed y x i j img
               = (slice2_update (\<lambda>v. fdiv (round64 env) v d) img (int i) (int i + y) (int j) (int j + x),
                  case greycomatrix env (round_astype (cast_nonfinite env) (idiv (round64 env) sub_image d))
                         gray_levels normed of
                    Inl e \<Rightarrow> Inl e
                  | Inr glcm \<Rightarrow> texture_of env prop gray_levels glcm)"
proof -
  let ?d = "fdiv (round64 env) (Fin 0) (Fin (of_int (gray_levels - 1)))"
  have d: "divisor (round64 env) sub_image gray_levels = Inr ?d"
    using assms by (simp add: divisor_def)
  have nf: "\<forall>row\<in>set (idiv (round64 env) sub_image ?d). \<forall>v\<in>set row. \<not> is_finite v"
  proof (intro ballI)
    fix row v assume "row \<in> set (idiv (round64 env) sub_image ?d)" "v \<in> set row"
    then obtain srow u where u: "srow \<in> set sub_image" "u \<in> set srow" "v = fdiv (round64 env) u ?d"
      by (auto simp: idiv_def)
    then have "u \<in> set (concat sub_image)" by auto
    with np_max_bound [OF assms(1) [folded assms(2)]]
    have "u \<noteq> NaN \<and> sort_rank u \<le> sort_rank (Fin 0)" by blast
    then have "u = NInf \<or> (\<exists>r. u = Fin r \<and> r \<le> 0)" by (auto dest: rank_le_Fin)
    then show "\<not> is_finite v" unfolding u(3) by (rule fdiv_by_zero_divisor)
  qed
  from d nf tile_step_unfold [OF d [unfolded assms(2)], of "prop" normed, folded assms(2)]
  show ?thesis by blast
qed

theorem tile_step_degenerate_witness:
  "np_max (concat (slice2 [[Fin 0, Fin (- 1)]] (int 0) (int 0 + 1) (int 0) (int 0 + 2))) = Inr (Fin 0)
   \<and> tile_step (skimage cast_x86_64) ''dissimilarity'' 4 True 1 2 0 0 [[Fin 0, Fin (- 1)]]
       = ([[NaN, NInf]], Inl (LibraryError ''Negative-valued images are not supported.''))"
proof -
  let ?img = "[[Fin 0, Fin (- 1)]]"
  let ?sub = "slice2 ?img (int 0) (int 0 + 1) (int 0) (int 0 + 2)"
  have h: "np_max (concat ?sub) = Inr (Fin 0)" by code_simp
  from tile_step_degenerate [OF h refl, of "skimage cast_x86_64" 4 "''dissimilarity''" True]
  obtain d where d: "divisor (round64 (skimage cast_x86_64)) ?sub 4 = Inr d"
    and t: "tile_step (skimage cast_x86_64) ''dissimilarity'' 4 True 1 2 0 0 ?img
               = (slice2_update (\<lambda>v. fdiv (round64 (skimage cast_x86_64)) v d) ?img (int 0) (int 0 + 1) (int 0) (int 0 + 2),
                  case greycomatrix (skimage cast_x86_64)
                         (round_astype (cast_nonfinite (skimage cast_x86_64)) (idiv (round64 (skimage cast_x86_64)) ?sub d)) 4 True of
                    Inl e \<Rightarrow> Inl e
                  | Inr glcm \<Rightarrow> texture_of (skimage cast_x86_64) ''dissimilarity'' 4 glcm)"
    by blast
  have "divisor (round64 (skimage cast_x86_64)) ?sub 4 = Inr (Fin 0)" by code_simp
  with d have d0: "d = Fin 0" by simp
  have "(slice2_update (\<lambda>v. fdiv (round64 (skimage cast_x86_64)) v (Fin 0)) ?img (int 0) (int 0 + 1) (int 0) (int 0 + 2),
                  case greycomatrix (skimage cast_x86_64)
                         (round_astype (cast_nonfinite (skimage cast_x86_64)) (idiv (round64 (skimage cast_x86_64)) ?sub (Fin 0))) 4 True of
                    Inl e \<Rightarrow> Inl e
                  | Inr glcm \<Rightarrow> texture_of (skimage cast_x86_64) ''dissimilarity'' 4 glcm)
        = ([[NaN, NInf]], Inl (LibraryError ''Negative-valued images are not supported.''))"
    by code_simp
  with t h show ?thesis unfolding d0 by simp
qed

text \<open>
  An all-zero tile. Where NaN is cast to level 0 the call succeeds and returns a finite
  value; where it is cast to a negative number the call fails with the error of
  \<^verbatim>\<open>greycomatrix\<close> about negative values. In both cases the input holds NaN afterwards.
\<close>

theorem degenerate_window_counterexample:
  "glcm_texture (skimage cast_aarch64) [[Fin 0, Fin 0]] (1, 2) ''dissimilarity'' 4 True
     = ([[NaN, NaN]], Inr [[0]])
   \<and> glcm_texture (skimage cast_x86_64) [[Fin 0, Fin 0]] (1, 2) ''dissimilarity'' 4 True
     = ([[NaN, NaN]], Inl (LibraryError ''Negative-valued images are not supported.''))"
  by code_simp

text \<open>
  Claim C2. The call changes the array it is given: after a successful call on the
  array \<open>[[1, 2]]\<close> with one 1 by 2 window and 4 gray levels the array holds
  \<open>[[1.5, 3]]\<close>.
\<close>

theorem glcm_texture_mutates_input:
  "glcm_texture (skimage cast_x86_64) [[Fin 1, Fin 2]] (1, 2) ''dissimilarity'' 4 True
     = ([[Fin (3 / 2), Fin 3]], Inr [[1 / 4]])"
  by code_simp

text \<open>
  Claim C3. On the uniform window \<open>[[5, 5], [5, 5]]\<close> with 2 gray levels every pixel is
  quantized to level 1 and each of the four co-occurrence matrices is
  \<open>[[0, 0], [0, 1]]\<close>. \<^verbatim>\<open>shannon_entropy\<close> of such a matrix is the entropy of the
  distribution of its cell values, three cells 0 and one cell 1, which is positive; so is
  the tile's output.
\<close>

theorem glcm_texture_entropy_uniform:
  "glcm_texture (skimage cast_x86_64) [[Fin 5, Fin 5], [Fin 5, Fin 5]] (2, 2) ''entropy'' 2 True
     = ([[Fin 1, Fin 1], [Fin 1, Fin 1]], Inr [[- (3 / 4) * ln (3 / 4) - (1 / 4) * ln (1 / 4)]])
   \<and> 0 < - (3 / 4) * ln (3 / 4) - (1 / 4) * ln (1 / 4 :: real)"
proof -
  have "np_mean (map sk_shannon_entropy [[[0, 0], [0, 1]], [[0, 0], [0, 1]], [[0, 0], [0, 1]], [[0, 0], [0, 1]]])
          = - (3 / 4) * ln (3 / 4) - (1 / 4) * ln (1 / 4)"
    unfolding np_mean_def list.map entropy_one_cell by simp
  with uniform_window_run [of sk_shannon_entropy, folded skimage_def] entropy_one_cell_pos show ?thesis by simp
qed

text \<open>
  Claim C4. With a property name other than the three supported ones, a positive
  window and an array with at least one row and one column, the call raises at the first
  tile and returns no grid. The check comes after the first tile has been rescaled in
  place and after \<^verbatim>\<open>greycomatrix\<close> has run on it: the error is that of \<^verbatim>\<open>greycomatrix\<close>
  if it refuses the tile, and the property error otherwise.
\<close>

theorem glcm_texture_unsupported_property:
  assumes "prop \<noteq> ''dissimilarity''" "prop \<noteq> ''homogeneity''" "prop \<noteq> ''entropy''"
    and "0 < y" "0 < x" "0 < shape0 im" "0 < shape1 im"
  shows "\<exists>d. divisor (round64 env) (slice2 im 0 y 0 x) gray_levels = Inr d
           \<and> glcm_texture env im (y, x) prop gray_levels normed
               = (slice2_update (\<lambda>v. fdiv (round64 env) v d) im 0 y 0 x,
                  Inl (case greycomatrix env
                              (round_astype (cast_nonfinite env) (idiv (round64 env) (slice2 im 0 y 0 x) d))
                              gray_levels normed of
                         Inl e \<Rightarrow> e
                       | Inr glcm \<Rightarrow> ValueError_property))"
proof -
  let ?sub = "slice2 im 0 y 0 x"
  from first_tile_nonempty [OF assms(4-7)]
  obtain v vs where "concat ?sub = v # vs" by (cases "concat ?sub") auto
  then obtain d where d: "divisor (round64 env) ?sub gray_levels = Inr d"
    by (simp add: divisor_def np_max_def)
  have t: "texture_of env prop gray_levels glcm = Inl ValueError_property" for glcm
    using assms(1-3) by (simp add: texture_of_def)
  have "tile_step env prop gray_levels normed y x 0 0 im
          = (slice2_update (\<lambda>v. fdiv (round64 env) v d) im 0 y 0 x,
             Inl (case greycomatrix env (round_astype (cast_nonfinite env) (idiv (round64 env) ?sub d))
                         gray_levels normed of
                    Inl e \<Rightarrow> e
                  | Inr glcm \<Rightarrow> ValueError_property))"
    using tile_step_unfold [of env im 0 y 0 x gray_levels d "prop" normed] d
    by (simp add: t split: sum.splits)
  from glcm_texture_first_tile_error [OF assms(4-7) this] d show ?thesis by blast
qed

theorem glcm_texture_unsupported_property_witness:
  "''contrast'' \<noteq> ''dissimilarity'' \<and> ''contrast'' \<noteq> ''homogeneity'' \<and> ''contrast'' \<noteq> ''entropy''
   \<and> 0 < shape0 [[Fin 1, Fin 2], [Fin 3, Fin 4]] \<and> 0 < shape1 [[Fin 1, Fin 2], [Fin 3, Fin 4]]
   \<and> glcm_texture (skimage cast_x86_64) [[Fin 1, Fin 2], [Fin 3, Fin 4]] (1, 1) ''contrast'' 4 True
       = ([[Fin 3, Fin 2], [Fin 3, Fin 4]], Inl ValueError_property)"
proof -
  let ?im = "[[Fin 1, Fin 2], [Fin 3, Fin 4]]"
  have p: "''contrast'' \<noteq> ''dissimilarity''" "''contrast'' \<noteq> ''homogeneity''" "''contrast'' \<noteq> ''entropy''"
    "(0::int) < 1" "0 < shape0 ?im" "0 < shape1 ?im"
    by (simp_all add: shape0_def shape1_def)
  from glcm_texture_unsupported_property [OF p(1-3) p(4) p(4) p(5,6), of "skimage cast_x86_64" 4 True]
  obtain d where d: "divisor (round64 (skimage cast_x86_64)) (slice2 ?im 0 1 0 1) 4 = Inr d"
    and t: "glcm_texture (skimage cast_x86_64) ?im (1, 1) ''contrast'' 4 True
               = (slice2_update (\<lambda>v. fdiv (round64 (skimage cast_x86_64)) v d) ?im 0 1 0 1,
                  Inl (case greycomatrix (skimage cast_x86_64)
                              (round_astype (cast_nonfinite (skimage cast_x86_64)) (idiv (round64 (skimage cast_x86_64)) (slice2 ?im 0 1 0 1) d))
                              4 True of
                         Inl e \<Rightarrow> e
                       | Inr glcm \<Rightarrow> ValueError_property))"
    by blast
  have "divisor (round64 (skimage cast_x86_64)) (slice2 ?im 0 1 0 1) 4 = Inr (Fin (1 / 3))" by code_simp
  with d have d0: "d = Fin (1 / 3)" by simp
  have "(slice2_update (\<lambda>v. fdiv (round64 (skimage cast_x86_64)) v (Fin (1 / 3))) ?im 0 1 0 1,
                  Inl (case greycomatrix (skimage cast_x86_64)
                              (round_astype (cast_nonfinite (skimage cast_x86_64))
                                 (idiv (round64 (skimage cast_x86_64)) (slice2 ?im 0 1 0 1) (Fin (1 / 3))))
                              4 True of
                         Inl e \<Rightarrow> e
                       | Inr glcm \<Rightarrow> ValueError_property))
        = ([[Fin 3, Fin 2], [Fin 3, Fin 4]], Inl ValueError_property :: error + real list list)"
    by code_simp
  with t p show ?thesis unfolding d0 by simp
qed

text \<open>
  The input is rescaled before the property is refused; without columns no tile is
  visited and nothing is refused.
\<close>

theorem unsupported_property_counterexample:
  "glcm_texture (skimage cast_x86_64) [[Fin 2, Fin 4]] (1, 2) ''contrast'' 4 True
     = ([[Fin (3 / 2), Fin 3]], Inl ValueError_property)
   \<and> glcm_texture (skimage cast_x86_64) [[], []] (1, 2) ''contrast'' 4 True
     = ([[], []], Inr [[], []])"
  by code_simp




text \<open>
  Claim C6. Take a tile of finite, non-negative samples with a positive maximum \<open>m\<close> and
  between 1 and \<open>2\<^sup>5\<^sup>0\<close> gray levels \<open>L\<close>, and a rounding \<open>rnd\<close> of the quotients that is
  monotone, keeps 0 and \<open>L - 3/4\<close> as they are, and returns for \<open>m / (L - 1)\<close> a number not
  below \<open>(1 - 2\<^sup>-\<^sup>5\<^sup>3) m / (L - 1)\<close>; the rounding to the nearest 64-bit float is such a
  rounding as long as \<open>m / (L - 1)\<close> does not underflow. Then the level of a sample \<open>v\<close> is
  the quotient of \<open>v\<close> by the divisor, as the format holds it, rounded to the nearest
  integer, a half to the even neighbour, and every level lies between 0 and \<open>L - 1\<close>. No
  clamp is applied, and the cast never leaves the 64-bit integers.
\<close>

theorem quantize_levels:
  assumes "np_max (concat sub_image) = Inr (Fin m)" "0 < m"
    and "1 \<le> gray_levels" "gray_levels \<le> 2 ^ 50"
    and "\<forall>v\<in>set (concat sub_image). \<exists>r. v = Fin r \<and> 0 \<le> r"
    and "\<forall>a b. a \<le> b \<longrightarrow> sort_rank (rnd a) \<le> sort_rank (rnd b)"
    and "rnd 0 = Fin 0"
    and "rnd (of_int gray_levels - 3 / 4) = Fin (of_int gray_levels - 3 / 4)"
    and "1 < gray_levels \<longrightarrow>
           (\<exists>dv. rnd (m / of_int (gray_levels - 1)) = Fin dv
                 \<and> (1 - 1 / 2 ^ 53) * (m / of_int (gray_levels - 1)) \<le> dv)"
  shows "\<exists>d. divisor rnd sub_image gray_levels = Inr d
           \<and> round_astype nonfinite (idiv rnd sub_image d)
               = map (map (\<lambda>v. round_half_even (fin_val (fdiv rnd v d)))) sub_image
           \<and> (\<forall>row\<in>set (round_astype nonfinite (idiv rnd sub_image d)).
                 \<forall>q\<in>set row. 0 \<le> q \<and> q \<le> gray_levels - 1)"
proof -
  let ?n = "of_int (gray_levels - 1) :: real"
  let ?d = "fdiv rnd (Fin m) (Fin ?n)"
  let ?q = "\<lambda>v. round_half_even (fin_val (fdiv rnd v ?d))"
  have d: "divisor rnd sub_image gray_levels = Inr ?d"
    using assms(1) by (simp add: divisor_def)
  have top: "(of_int gray_levels - 3 / 4 :: real) = ?n + 1 / 4" by simp
  have quot: "\<exists>q. fdiv rnd v ?d = Fin q \<and> 0 \<le> q \<and> q \<le> ?n + 1 / 4"
    if v: "v \<in> set (concat sub_image)" for v
  proof -
    from assms(5) v obtain r where r: "v = Fin r" "0 \<le> r" by blast
    from np_max_bound [OF assms(1) v] r have rm: "r \<le> m" by (simp add: sort_rank_def)
    show ?thesis
    proof (cases "gray_levels = 1")
      case True
      then have "?d = PInf" using assms(2) by (simp add: fdiv_def)
      then have "fdiv rnd v ?d = Fin 0" using r by (simp add: fdiv_def)
      with True show ?thesis by simp
    next
      case False
      with assms(3) have g: "1 < gray_levels" by simp
      then have n1: "1 \<le> ?n" by simp
      have n50: "?n \<le> 2 ^ 50"
      proof -
        have "gray_levels - 1 \<le> 2 ^ 50" using assms(4) by simp
        then have "(of_int (gray_levels - 1) :: real) \<le> of_int (2 ^ 50)" by (simp only: of_int_le_iff)
        then show ?thesis by simp
      qed
      from assms(9) g obtain dv where dv: "rnd (m / ?n) = Fin dv" "(1 - 1 / 2 ^ 53) * (m / ?n) \<le> dv"
        by blast
      note qb = quotient_bound [OF assms(2) n1 n50 dv(2) r(2) rm]
      have dd: "?d = Fin dv" using assms(2) n1 dv(1) by (simp add: fdiv_def)
      show ?thesis
      proof (cases "r = 0")
        case True
        then have "fdiv rnd v ?d = Fin 0" unfolding dd using r qb(1) by (simp add: fdiv_def)
        then show ?thesis using n1 by simp
      next
        case False
        then have e: "fdiv rnd v ?d = rnd (r / dv)" unfolding dd using r qb(1) by (simp add: fdiv_def)
        have "0 \<le> r / dv" using r(2) qb(1) by simp
        with assms(6) have lo: "sort_rank (rnd 0) \<le> sort_rank (rnd (r / dv))" by blast
        from assms(6) qb(2) have hi: "sort_rank (rnd (r / dv)) \<le> sort_rank (rnd (?n + 1 / 4))" by blast
        from rank_between [OF lo [unfolded assms(7)] hi [unfolded assms(8) [unfolded top]]]
        show ?thesis unfolding e .
      qed
    qed
  qed
  have cell: "astype_int nonfinite (np_round (fdiv rnd v ?d)) = ?q v \<and> 0 \<le> ?q v \<and> ?q v \<le> gray_levels - 1"
    if v: "v \<in> set (concat sub_image)" for v
  proof -
    from quot [OF v] obtain q where q: "fdiv rnd v ?d = Fin q" "0 \<le> q" "q \<le> ?n + 1 / 4" by blast
    from round_half_even_quarter [OF q(2,3)]
    have z: "0 \<le> round_half_even q" "round_half_even q \<le> gray_levels - 1" by simp_all
    have "gray_levels - 1 < 2 ^ 63"
    proof -
      have "(2::int) ^ 50 \<le> 2 ^ 63" by simp
      with assms(4) show ?thesis by linarith
    qed
    with z have rng: "- (2 ^ 63) \<le> round_half_even q" "round_half_even q < 2 ^ 63" by linarith+
    have "astype_int nonfinite (np_round (Fin q)) = round_half_even q"
      unfolding np_round_def fl.case by (rule astype_int_of_int [OF rng])
    with z show ?thesis unfolding q(1) by (simp add: fin_val_def)
  qed
  have eq: "round_astype nonfinite (idiv rnd sub_image ?d) = map (map ?q) sub_image"
    unfolding round_astype_def idiv_def map_map comp_def
  proof (rule map_cong [OF refl], rule map_cong [OF refl])
    fix row v assume "row \<in> set sub_image" "v \<in> set row"
    then have "v \<in> set (concat sub_image)" by auto
    then show "astype_int nonfinite (np_round (fdiv rnd v ?d)) = ?q v" using cell by blast
  qed
  have rng: "\<forall>row\<in>set (round_astype nonfinite (idiv rnd sub_image ?d)). \<forall>q\<in>set row. 0 \<le> q \<and> q \<le> gray_levels - 1"
    unfolding eq
  proof (intro ballI)
    fix row q assume "row \<in> set (map (map ?q) sub_image)" "q \<in> set row"
    then obtain srow v where "srow \<in> set sub_image" "v \<in> set srow" "q = ?q v" by auto
    then have "v \<in> set (concat sub_image)" "q = ?q v" by auto
    with cell show "0 \<le> q \<and> q \<le> gray_levels - 1" by blast
  qed
  from d eq rng show ?thesis by blast
qed

theorem quantize_levels_witness:
  "np_max (concat [[Fin (1 / 2), Fin (3 / 2)], [Fin (5 / 2), Fin 31]]) = Inr (Fin 31)
   \<and> exact 0 = Fin 0
   \<and> exact (of_int 32 - 3 / 4) = Fin (of_int 32 - 3 / 4)
   \<and> (\<exists>d. divisor exact [[Fin (1 / 2), Fin (3 / 2)], [Fin (5 / 2), Fin 31]] 32 = Inr d
          \<and> round_astype cast_x86_64 (idiv exact [[Fin (1 / 2), Fin (3 / 2)], [Fin (5 / 2), Fin 31]] d)
              = [[0, 2], [2, 31]])"
proof -
  let ?s = "[[Fin (1 / 2), Fin (3 / 2)], [Fin (5 / 2), Fin 31]]"
  have h: "np_max (concat ?s) = Inr (Fin 31)" by code_simp
  have m: "(0::real) < 31" and l: "(1::int) \<le> 32" "(32::int) \<le> 2 ^ 50" by simp_all
  have f: "\<forall>v\<in>set (concat ?s). \<exists>r. v = Fin r \<and> 0 \<le> r"
  proof
    fix v assume "v \<in> set (concat ?s)"
    then consider "v = Fin (1 / 2)" | "v = Fin (3 / 2)" | "v = Fin (5 / 2)" | "v = Fin 31"
      by auto
    then show "\<exists>r. v = Fin r \<and> 0 \<le> r"
    proof cases
      case 1 then show ?thesis by (intro exI [of _ "1 / 2"]) simp
    next
      case 2 then show ?thesis by (intro exI [of _ "3 / 2"]) simp
    next
      case 3 then show ?thesis by (intro exI [of _ "5 / 2"]) simp
    next
      case 4 then show ?thesis by (intro exI [of _ 31]) simp
    qed
  qed
  have mono: "\<forall>a b. a \<le> b \<longrightarrow> sort_rank (exact a) \<le> sort_rank (exact b)"
    by (simp add: exact_def sort_rank_def)
  have e0: "exact 0 = Fin 0" and e1: "exact (of_int 32 - 3 / 4) = Fin (of_int 32 - 3 / 4)"
    by (simp_all add: exact_def)
  have acc: "1 < (32::int) \<longrightarrow>
           (\<exists>dv. exact (31 / of_int (32 - 1)) = Fin dv
                 \<and> (1 - 1 / 2 ^ 53) * (31 / of_int (32 - 1)) \<le> dv)"
    by (simp add: exact_def)
  from quantize_levels [OF h m l f mono e0 e1 acc, of cast_x86_64]
  obtain d where d: "divisor exact ?s 32 = Inr d"
    and q: "round_astype cast_x86_64 (idiv exact ?s d)
              = map (map (\<lambda>v. round_half_even (fin_val (fdiv exact v d)))) ?s"
    by blast
  have "divisor exact ?s 32 = Inr (Fin 1)" by code_simp
  with d have d1: "d = Fin 1" by simp
  have "map (map (\<lambda>v. round_half_even (fin_val (fdiv exact v (Fin 1))))) ?s = [[0, 2], [2, 31]]"
    by code_simp
  with d q h e0 e1 show ?thesis unfolding d1 by simp
qed

text \<open>A negative sample in a tile with maximum 31 gets a negative level.\<close>

theorem quantize_levels_counterexample:
  "np_max (concat [[Fin (- 31), Fin 31]]) = Inr (Fin 31)
   \<and> divisor exact [[Fin (- 31), Fin 31]] 32 = Inr (Fin 1)
   \<and> round_astype cast_x86_64 (idiv exact [[Fin (- 31), Fin 31]] (Fin 1)) = [[- 31, 31]]"
  by code_simp

end
